theory Spec2Isabelle
  imports Main "HOL-Library.Sublist"
begin

section \<open>The file manager client of src/client.py\<close>

text \<open>
  The class \<^verbatim>\<open>FileManagerClient\<close> keeps two history lists in memory, writes each of
  them to a JSON file, renames files between the input directory and its archive and
  talks to an object store. The model threads one record through every call: the
  fields of the object, the three directories, the two history files and the remote
  buckets. Each external call may raise; whether it does is read from an environment
  record, and an exception is the value \<open>Some e\<close> returned with the state reached so far.
\<close>

subsection \<open>Data\<close>

datatype entry = RegularFile | Directory

type_synonym directory = "(string \<times> entry) list"

datatype dirname = InputDir | ArchiveDir | OutputDir

type_synonym path = "dirname \<times> string"

datatype ledger = UploadLedger | DownloadLedger

text \<open>
  A history file is missing, holds the JSON text of a list of strings, or holds text
  that \<^verbatim>\<open>json.load\<close> rejects: the empty file that \<^verbatim>\<open>open(fp, "w")\<close> leaves when
  nothing is written after it, or a strict prefix of the text of a list, which is
  never the text of a JSON value.
\<close>

datatype history_file = Absent | Content "string list" | Unparsable

datatype error =
    FileNotFoundError | OSError | IsADirectoryError | TransferError
  | PlaysoundException | JSONDecodeError

text \<open>The calls the client makes, in the order it makes them.\<close>

datatype event =
    OsRename path path
  | OsStat path
  | S3Upload string string
  | HistoryAppend ledger string
  | JsonDump ledger
  | S3ListObjects
  | S3Download string
  | Playsound
  | Sleep

text \<open>
  Besides the state of the program, the record keeps the trace of calls, a clock that
  counts the seconds spent in \<^verbatim>\<open>time.sleep\<close>, and the reading of that clock at which
  the termination handler first ran.
\<close>

record world =
  input_dir :: directory
  archive_dir :: directory
  output_dir :: directory
  upload_bucket :: "string list"
  download_bucket :: "string list"
  upload_fp :: history_file
  download_fp :: history_file
  upload_history :: "string list"
  download_history :: "string list"
  sleep_interval :: nat
  running :: bool
  events :: "event list"
  clock :: nat
  signalled_at :: "nat option"

text \<open>
  What \<^verbatim>\<open>with open(fp, "w") as f: json.dump(history, f)\<close> can do: write the whole
  list; raise in \<^verbatim>\<open>open\<close>, before the file is touched; or raise after \<^verbatim>\<open>open\<close> has
  truncated the file, while writing or closing.
\<close>

datatype dump_outcome = Written | OpenRefused | WriteFailed

text \<open>
  What the surroundings decide during one iteration of a loop: which external calls
  raise, whether the termination signal has been handled before the loop tests its
  flag, and whether it is handled while the loop sleeps, so many seconds into the
  sleep.
\<close>

record env =
  rename_fails :: "path \<Rightarrow> path \<Rightarrow> bool"
  stat_fails :: "path \<Rightarrow> bool"
  upload_fails :: "string \<Rightarrow> bool"
  dump :: "ledger \<Rightarrow> dump_outcome"
  list_fails :: bool
  download_fails :: "string \<Rightarrow> bool"
  playsound_fails :: bool
  sigterm :: bool
  sigterm_asleep :: "nat option"

type_synonym step = "world \<Rightarrow> error option \<times> world"

subsection \<open>Directories\<close>

definition names :: "directory \<Rightarrow> string list" where
  "names d = map fst d"

definition dir_remove :: "string \<Rightarrow> directory \<Rightarrow> directory" where
  "dir_remove n d = filter (\<lambda>p. fst p \<noteq> n) d"

definition dir_put :: "string \<Rightarrow> entry \<Rightarrow> directory \<Rightarrow> directory" where
  "dir_put n e d = dir_remove n d @ [(n, e)]"

fun get_dir :: "dirname \<Rightarrow> world \<Rightarrow> directory" where
  "get_dir InputDir w = input_dir w"
| "get_dir ArchiveDir w = archive_dir w"
| "get_dir OutputDir w = output_dir w"

fun set_dir :: "dirname \<Rightarrow> directory \<Rightarrow> world \<Rightarrow> world" where
  "set_dir InputDir d w = w\<lparr>input_dir := d\<rparr>"
| "set_dir ArchiveDir d w = w\<lparr>archive_dir := d\<rparr>"
| "set_dir OutputDir d w = w\<lparr>output_dir := d\<rparr>"

subsection \<open>Sequencing\<close>

definition emit :: "event \<Rightarrow> world \<Rightarrow> world" where
  "emit ev w = w\<lparr>events := events w @ [ev]\<rparr>"

definition new_events :: "world \<Rightarrow> world \<Rightarrow> event list" where
  "new_events w w' = drop (length (events w)) (events w')"

text \<open>Statements in sequence: the first exception ends the sequence.\<close>

fun run_steps :: "step list \<Rightarrow> step" where
  "run_steps [] w = (None, w)"
| "run_steps (s # ss) w =
     (case s w of (None, w') \<Rightarrow> run_steps ss w' | (Some e, w') \<Rightarrow> (Some e, w'))"

text \<open>The states between the statements of a sequence, the first and the last included.\<close>

fun reach :: "step list \<Rightarrow> world \<Rightarrow> world list" where
  "reach [] w = [w]"
| "reach (s # ss) w =
     w # (case s w of (None, w') \<Rightarrow> reach ss w' | (Some e, w') \<Rightarrow> [w'])"

subsection \<open>External calls\<close>

text \<open>
  \<^verbatim>\<open>os.rename(src, dst)\<close>: raises when the source is missing or when the surroundings
  refuse (an existing destination on some platforms, permissions); otherwise the entry
  leaves the source path and replaces whatever the destination path held.
\<close>

definition os_rename :: "env \<Rightarrow> path \<Rightarrow> path \<Rightarrow> step" where
  "os_rename env src dst w =
     (let w1 = emit (OsRename src dst) w in
      case map_of (get_dir (fst src) w1) (snd src) of
        None \<Rightarrow> (Some FileNotFoundError, w1)
      | Some e \<Rightarrow>
          if rename_fails env src dst then (Some OSError, w1)
          else
            (let w2 = set_dir (fst src) (dir_remove (snd src) (get_dir (fst src) w1)) w1
             in (None, set_dir (fst dst) (dir_put (snd dst) e (get_dir (fst dst) w2)) w2)))"

definition os_stat :: "env \<Rightarrow> path \<Rightarrow> step" where
  "os_stat env p w =
     (let w1 = emit (OsStat p) w in
      case map_of (get_dir (fst p) w1) (snd p) of
        None \<Rightarrow> (Some FileNotFoundError, w1)
      | Some e \<Rightarrow> if stat_fails env p then (Some OSError, w1) else (None, w1))"

text \<open>
  \<^verbatim>\<open>self.s3.upload_file(Filename=file, Bucket=.., Key=file.name, ..)\<close> opens the local
  path for reading: a missing path and a directory raise, a regular file is sent unless
  the surroundings make the transfer fail.
\<close>

definition s3_upload_file :: "env \<Rightarrow> string \<Rightarrow> string \<Rightarrow> step" where
  "s3_upload_file env filename key w =
     (let w1 = emit (S3Upload filename key) w in
      case map_of (input_dir w1) filename of
        None \<Rightarrow> (Some FileNotFoundError, w1)
      | Some Directory \<Rightarrow> (Some IsADirectoryError, w1)
      | Some RegularFile \<Rightarrow>
          if upload_fails env key then (Some TransferError, w1)
          else (None, w1\<lparr>upload_bucket := upload_bucket w1 @ [key]\<rparr>))"

definition s3_download_file :: "env \<Rightarrow> string \<Rightarrow> step" where
  "s3_download_file env key w =
     (let w1 = emit (S3Download key) w in
      if download_fails env key then (Some TransferError, w1)
      else (None, w1\<lparr>output_dir := dir_put key RegularFile (output_dir w1)\<rparr>))"

definition playsound :: "env \<Rightarrow> step" where
  "playsound env w =
     (let w1 = emit Playsound w in
      if playsound_fails env then (Some PlaysoundException, w1) else (None, w1))"

text \<open>\<^verbatim>\<open>self.upload_history.append(..)\<close> and \<^verbatim>\<open>self.download_history.append(..)\<close>.\<close>

fun history_append :: "ledger \<Rightarrow> string \<Rightarrow> step" where
  "history_append UploadLedger x w =
     (None, (emit (HistoryAppend UploadLedger x) w)\<lparr>upload_history := upload_history w @ [x]\<rparr>)"
| "history_append DownloadLedger x w =
     (None, (emit (HistoryAppend DownloadLedger x) w)\<lparr>download_history := download_history w @ [x]\<rparr>)"

text \<open>
  \<^verbatim>\<open>with open(fp, "w") as f: json.dump(history, f)\<close>: when all goes well the whole list
  in memory replaces the file's content. A refused \<^verbatim>\<open>open\<close> raises and leaves the file
  as it was; a failure after \<^verbatim>\<open>open\<close> raises and leaves the truncated file, empty or
  holding a part of the text.
\<close>

fun json_dump :: "env \<Rightarrow> ledger \<Rightarrow> step" where
  "json_dump env UploadLedger w =
     (let w1 = emit (JsonDump UploadLedger) w in
      case dump env UploadLedger of
        OpenRefused \<Rightarrow> (Some OSError, w1)
      | WriteFailed \<Rightarrow> (Some OSError, w1\<lparr>upload_fp := Unparsable\<rparr>)
      | Written \<Rightarrow> (None, w1\<lparr>upload_fp := Content (upload_history w1)\<rparr>))"
| "json_dump env DownloadLedger w =
     (let w1 = emit (JsonDump DownloadLedger) w in
      case dump env DownloadLedger of
        OpenRefused \<Rightarrow> (Some OSError, w1)
      | WriteFailed \<Rightarrow> (Some OSError, w1\<lparr>download_fp := Unparsable\<rparr>)
      | Written \<Rightarrow> (None, w1\<lparr>download_fp := Content (download_history w1)\<rparr>))"

subsection \<open>The constructor\<close>

text \<open>
  \<^verbatim>\<open>__init__\<close>: a missing history file is created holding the empty list; then the
  upload history and the download history are loaded, in this order, and
  \<^verbatim>\<open>json.load\<close> raises on a file it cannot parse; last the sleep interval is taken from
  the keyword argument, 10 when there is none, and the flag is set. The directories
  of the model always exist.
\<close>

definition create_if_missing :: "history_file \<Rightarrow> history_file" where
  "create_if_missing f = (case f of Absent \<Rightarrow> Content [] | Content l \<Rightarrow> Content l | Unparsable \<Rightarrow> Unparsable)"

definition json_load :: "history_file \<Rightarrow> error + string list" where
  "json_load f =
     (case f of Absent \<Rightarrow> Inl FileNotFoundError | Content l \<Rightarrow> Inr l | Unparsable \<Rightarrow> Inl JSONDecodeError)"

definition init :: "nat option \<Rightarrow> world \<Rightarrow> error option \<times> world" where
  "init sleep_kwarg w =
     (let w1 = w\<lparr>upload_fp := create_if_missing (upload_fp w),
                 download_fp := create_if_missing (download_fp w)\<rparr>
      in case json_load (upload_fp w1) of
           Inl e \<Rightarrow> (Some e, w1)
         | Inr u \<Rightarrow>
             (case json_load (download_fp w1) of
                Inl e \<Rightarrow> (Some e, w1)
              | Inr d \<Rightarrow>
                  (None, w1\<lparr>upload_history := u, download_history := d,
                            sleep_interval := (case sleep_kwarg of None \<Rightarrow> 10 | Some n \<Rightarrow> n),
                            running := True, signalled_at := None\<rparr>)))"

subsection \<open>The upload side\<close>

definition check_input_files :: "world \<Rightarrow> string list" where
  "check_input_files w = names (input_dir w)"

text \<open>\<^verbatim>\<open>file.name.replace(" ", "_")\<close>\<close>

definition replace_spaces :: "string \<Rightarrow> string" where
  "replace_spaces s = map (\<lambda>c. if c = CHR '' '' then CHR ''_'' else c) s"

text \<open>The name of \<^verbatim>\<open>file\<close> after the conditional at the head of \<^verbatim>\<open>_upload_file\<close>.\<close>

definition stored_name :: "string \<Rightarrow> string" where
  "stored_name name = (if CHR '' '' \<in> set name then replace_spaces name else name)"

text \<open>
  \<^verbatim>\<open>_upload_file\<close>, statement by statement. The progress bar only draws to the
  console and is left out.
\<close>

definition upload_file_steps :: "env \<Rightarrow> string \<Rightarrow> step list" where
  "upload_file_steps env name =
     (let file = stored_name name in
      [(\<lambda>w. if CHR '' '' \<in> set name
             then os_rename env (InputDir, name) (InputDir, replace_spaces name) w
             else (None, w)),
       os_stat env (InputDir, file),
       s3_upload_file env file file,
       history_append UploadLedger file,
       json_dump env UploadLedger,
       os_rename env (InputDir, file) (ArchiveDir, file)])"

definition upload_file :: "env \<Rightarrow> string \<Rightarrow> step" where
  "upload_file env name = run_steps (upload_file_steps env name)"

definition upload_files :: "env \<Rightarrow> string list \<Rightarrow> step" where
  "upload_files env files = run_steps (map (upload_file env) files)"

subsection \<open>The download side\<close>

text \<open>
  \<^verbatim>\<open>_list_s3_files\<close>: the response has no \<^verbatim>\<open>Contents\<close> for an empty bucket; the
  result is the list of keys either way.
\<close>

definition list_objects :: "world \<Rightarrow> string list option" where
  "list_objects w = (if download_bucket w = [] then None else Some (download_bucket w))"

definition list_s3_files :: "env \<Rightarrow> world \<Rightarrow> (error + string list) \<times> world" where
  "list_s3_files env w =
     (let w1 = emit S3ListObjects w in
      if list_fails env then (Inl TransferError, w1)
      else (case list_objects w1 of
              None \<Rightarrow> (Inr [], w1)
            | Some contents \<Rightarrow> (Inr contents, w1)))"

definition download_file_steps :: "env \<Rightarrow> string \<Rightarrow> step list" where
  "download_file_steps env file =
     [s3_download_file env file,
      playsound env,
      history_append DownloadLedger file,
      json_dump env DownloadLedger]"

definition download_file :: "env \<Rightarrow> string \<Rightarrow> step" where
  "download_file env file = run_steps (download_file_steps env file)"

definition download_if_new :: "env \<Rightarrow> string \<Rightarrow> step" where
  "download_if_new env file w =
     (if file \<notin> set (download_history w) then download_file env file w else (None, w))"

definition check_for_downloads :: "env \<Rightarrow> step" where
  "check_for_downloads env w =
     (case list_s3_files env w of
        (Inl e, w1) \<Rightarrow> (Some e, w1)
      | (Inr files, w1) \<Rightarrow> run_steps (map (download_if_new env) files) w1)"

subsection \<open>The two loops\<close>

text \<open>
  \<^verbatim>\<open>handle_termination_signal\<close> clears the flag (it then joins the two threads and
  exits, which is left out). The loops run in threads of their own; here each loop
  takes one environment per iteration, and the handler has run before the test of an
  iteration whose environment says so. A loop that has used all its environments is
  still running.
\<close>

datatype loop_exit = Stopped | Crashed error | StillRunning

definition handle_termination_signal :: "world \<Rightarrow> world" where
  "handle_termination_signal w =
     w\<lparr>running := False,
       signalled_at := (case signalled_at w of None \<Rightarrow> Some (clock w) | Some t \<Rightarrow> Some t)\<rparr>"

definition deliver :: "env \<Rightarrow> world \<Rightarrow> world" where
  "deliver env w = (if sigterm env then handle_termination_signal w else w)"

text \<open>
  \<^verbatim>\<open>time.sleep(self.sleep_interval)\<close> returns when the whole interval has passed. The
  handler runs in the main thread: when the signal comes while a loop sleeps, the flag
  is cleared at that moment and the sleep of the loop's thread goes on to its end.
\<close>

definition time_sleep :: "env \<Rightarrow> world \<Rightarrow> world" where
  "time_sleep env w =
     (let w1 = emit Sleep w; wake = clock w + sleep_interval w in
      case sigterm_asleep env of
        None \<Rightarrow> w1\<lparr>clock := wake\<rparr>
      | Some d \<Rightarrow> (handle_termination_signal (w1\<lparr>clock := min (clock w + d) wake\<rparr>))\<lparr>clock := wake\<rparr>)"

definition input_iteration :: "env \<Rightarrow> step" where
  "input_iteration env w =
     (let files = check_input_files w in
      if files \<noteq> [] then upload_files env files w else (None, w))"

fun manage_input :: "env list \<Rightarrow> world \<Rightarrow> loop_exit \<times> world" where
  "manage_input [] w = (StillRunning, w)"
| "manage_input (env # envs) w =
     (let w0 = deliver env w in
      if \<not> running w0 then (Stopped, w0)
      else (case input_iteration env w0 of
              (Some e, w1) \<Rightarrow> (Crashed e, w1)
            | (None, w1) \<Rightarrow> manage_input envs (time_sleep env w1)))"

fun manage_output :: "env list \<Rightarrow> world \<Rightarrow> loop_exit \<times> world" where
  "manage_output [] w = (StillRunning, w)"
| "manage_output (env # envs) w =
     (let w0 = deliver env w in
      if \<not> running w0 then (Stopped, w0)
      else (case check_for_downloads env w0 of
              (Some e, w1) \<Rightarrow> (Crashed e, w1)
            | (None, w1) \<Rightarrow> manage_output envs (time_sleep env w1)))"

subsection \<open>Concrete surroundings\<close>

definition env_ok :: env where
  "env_ok =
     \<lparr>rename_fails = (\<lambda>src dst. False), stat_fails = (\<lambda>p. False),
      upload_fails = (\<lambda>k. False), dump = (\<lambda>l. Written), list_fails = False,
      download_fails = (\<lambda>k. False), playsound_fails = False, sigterm = False,
      sigterm_asleep = None\<rparr>"

text \<open>A machine on which nothing has happened yet, and the client just constructed on it.\<close>

definition blank :: world where
  "blank =
     \<lparr>input_dir = [], archive_dir = [], output_dir = [], upload_bucket = [],
      download_bucket = [], upload_fp = Absent, download_fp = Absent,
      upload_history = [], download_history = [], sleep_interval = 0, running = False,
      events = [], clock = 0, signalled_at = None\<rparr>"

definition fresh :: world where
  "fresh = snd (init None blank)"


subsection \<open>A property of traces\<close>

text \<open>In a trace, every append of a key to the Download Ledger comes after its download.\<close>

definition download_first :: "event list \<Rightarrow> bool" where
  "download_first evs \<longleftrightarrow>
     (\<forall>pre k post. evs = pre @ HistoryAppend DownloadLedger k # post \<longrightarrow> S3Download k \<in> set pre)"

subsection \<open>Concrete runs\<close>

text \<open>
  The scenarios of the specification: an input directory holding \<^verbatim>\<open>report final.csv\<close>,
  a download bucket listing \<^verbatim>\<open>a.txt\<close> and \<^verbatim>\<open>b.txt\<close> with an empty ledger, and the same
  bucket with \<^verbatim>\<open>a.txt\<close> already in the ledger file at startup.
\<close>

definition w_scenario1 :: world where
  "w_scenario1 = fresh\<lparr>input_dir := [(''report final.csv'', RegularFile)]\<rparr>"

definition w_scenario1_after :: world where
  "w_scenario1_after =
     w_scenario1\<lparr>input_dir := [], archive_dir := [(''report_final.csv'', RegularFile)],
       upload_bucket := [''report_final.csv''], upload_fp := Content [''report_final.csv''],
       upload_history := [''report_final.csv''],
       events := [OsRename (InputDir, ''report final.csv'') (InputDir, ''report_final.csv''),
                  OsStat (InputDir, ''report_final.csv''),
                  S3Upload ''report_final.csv'' ''report_final.csv'',
                  HistoryAppend UploadLedger ''report_final.csv'', JsonDump UploadLedger,
                  OsRename (InputDir, ''report_final.csv'') (ArchiveDir, ''report_final.csv'')]\<rparr>"

definition w_scenario2 :: world where
  "w_scenario2 = fresh\<lparr>download_bucket := [''a.txt'', ''b.txt'']\<rparr>"

definition w_scenario3 :: world where
  "w_scenario3 =
     snd (init None (fresh\<lparr>download_bucket := [''a.txt'', ''b.txt''], download_fp := Content [''a.txt'']\<rparr>))"

definition w_scenario3_after :: world where
  "w_scenario3_after =
     w_scenario3\<lparr>output_dir := [(''b.txt'', RegularFile)],
       download_fp := Content [''a.txt'', ''b.txt''], download_history := [''a.txt'', ''b.txt''],
       events := [S3ListObjects, S3Download ''b.txt'', Playsound,
                  HistoryAppend DownloadLedger ''b.txt'', JsonDump DownloadLedger]\<rparr>"

text \<open>
  Surroundings in which one call fails (the playback, the upload of \<^verbatim>\<open>a\<close>, the download
  of \<^verbatim>\<open>a.txt\<close>) and the states the failing runs end in; a second file named \<^verbatim>\<open>a\<close> that
  arrives after the first was uploaded, followed by a restart; an input directory that
  holds a subdirectory between two files, and the state after its first file; the
  signal arriving at the moment a loop falls asleep.
\<close>

definition env_mute :: env where
  "env_mute = env_ok\<lparr>playsound_fails := True\<rparr>"

definition env_upload_a_fails :: env where
  "env_upload_a_fails = env_ok\<lparr>upload_fails := (\<lambda>k. k = ''a'')\<rparr>"

definition env_download_a_fails :: env where
  "env_download_a_fails = env_ok\<lparr>download_fails := (\<lambda>k. k = ''a.txt'')\<rparr>"

definition w_two_files :: world where
  "w_two_files = fresh\<lparr>input_dir := [(''a'', RegularFile), (''b'', RegularFile)]\<rparr>"

definition w_two_files_failed :: world where
  "w_two_files_failed = w_two_files\<lparr>events := [OsStat (InputDir, ''a''), S3Upload ''a'' ''a'']\<rparr>"

definition w_scenario2_failed :: world where
  "w_scenario2_failed = w_scenario2\<lparr>events := [S3ListObjects, S3Download ''a.txt'']\<rparr>"

definition w_first_a :: world where
  "w_first_a = fresh\<lparr>input_dir := [(''a'', RegularFile)]\<rparr>"

definition w_second_a :: world where
  "w_second_a =
     snd (init None ((snd (manage_input [env_ok] w_first_a))\<lparr>input_dir := [(''a'', RegularFile)]\<rparr>))"

definition w_file_subdir_file :: world where
  "w_file_subdir_file =
     fresh\<lparr>input_dir := [(''a'', RegularFile), (''sub'', Directory), (''b'', RegularFile)]\<rparr>"

definition w_file_subdir_file_1 :: world where
  "w_file_subdir_file_1 =
     w_file_subdir_file\<lparr>input_dir := [(''sub'', Directory), (''b'', RegularFile)],
       archive_dir := [(''a'', RegularFile)],
       upload_bucket := [''a''], upload_fp := Content [''a''], upload_history := [''a''],
       events := [OsStat (InputDir, ''a''), S3Upload ''a'' ''a'',
                  HistoryAppend UploadLedger ''a'', JsonDump UploadLedger,
                  OsRename (InputDir, ''a'') (ArchiveDir, ''a'')]\<rparr>"


section \<open>Properties\<close>

lemma replace_spaces_no_space: "CHR '' '' \<notin> set (replace_spaces s)"
  by (induction s) (auto simp: replace_spaces_def)

lemma replace_spaces_id: "CHR '' '' \<notin> set s \<Longrightarrow> replace_spaces s = s"
  by (induction s) (auto simp: replace_spaces_def)

lemma stored_name_no_space: "CHR '' '' \<notin> set (stored_name s)"
  by (simp add: stored_name_def replace_spaces_no_space)

lemmas prim_defs = os_rename_def os_stat_def s3_upload_file_def s3_download_file_def playsound_def
  emit_def Let_def

lemmas upload_defs = upload_file_def upload_file_steps_def prim_defs

lemma in_names_remove: "n \<in> set (names (dir_remove m d)) \<longleftrightarrow> n \<in> set (names d) \<and> n \<noteq> m"
  by (auto simp: names_def dir_remove_def)

lemma in_names_put: "n \<in> set (names (dir_put m e d)) \<longleftrightarrow> n = m \<or> n \<in> set (names d)"
  by (auto simp: names_def dir_put_def dir_remove_def)

lemma map_of_names: "map_of d n = Some e \<Longrightarrow> n \<in> set (names d)"
  by (auto simp: names_def dest: map_of_SomeD intro: rev_image_eqI)

lemma upload_file_transfer_error:
  assumes "upload_file env x w = (Some TransferError, w')"
  shows "upload_history w' = upload_history w \<and> upload_fp w' = upload_fp w
       \<and> archive_dir w' = archive_dir w \<and> upload_bucket w' = upload_bucket w
       \<and> stored_name x \<in> set (names (input_dir w'))
       \<and> download_history w' = download_history w"
  using assms
  by (auto simp: upload_defs in_names_put in_names_remove stored_name_def
      split: option.splits if_splits entry.splits dump_outcome.splits dest: map_of_names)

lemma upload_file_success:
  assumes "upload_file env x w = (None, w')"
  shows "upload_history w' = upload_history w @ [stored_name x]
       \<and> upload_fp w' = Content (upload_history w')
       \<and> upload_bucket w' = upload_bucket w @ [stored_name x]
       \<and> events w' = events w @
           (if CHR '' '' \<in> set x then [OsRename (InputDir, x) (InputDir, replace_spaces x)] else []) @
           [OsStat (InputDir, stored_name x), S3Upload (stored_name x) (stored_name x),
            HistoryAppend UploadLedger (stored_name x), JsonDump UploadLedger,
            OsRename (InputDir, stored_name x) (ArchiveDir, stored_name x)]
       \<and> x \<notin> set (names (input_dir w'))
       \<and> stored_name x \<notin> set (names (input_dir w'))
       \<and> stored_name x \<in> set (names (archive_dir w'))
       \<and> set (names (archive_dir w')) = insert (stored_name x) (set (names (archive_dir w)))"
  using assms
  by (auto simp: upload_defs in_names_put in_names_remove stored_name_def replace_spaces_id
      split: option.splits if_splits entry.splits dump_outcome.splits dest: map_of_names)

lemma upload_file_any:
  assumes "upload_file env x w = (r, w')"
  shows "prefix (upload_history w) (upload_history w') \<and> prefix (events w) (events w')
       \<and> download_history w' = download_history w \<and> download_fp w' = download_fp w
       \<and> running w' = running w"
  using assms
  by (auto simp: upload_defs split: option.splits if_splits entry.splits dump_outcome.splits)

lemmas download_defs = download_if_new_def download_file_def download_file_steps_def prim_defs

lemma new_events_append:
  "prefix (events w) (events w1) \<Longrightarrow> prefix (events w1) (events w2) \<Longrightarrow>
   new_events w w2 = new_events w w1 @ new_events w1 w2"
  by (auto simp: new_events_def prefix_def)

lemma new_events_self: "new_events w w = []"
  by (simp add: new_events_def)

lemma download_if_new_any:
  assumes "download_if_new env k w = (r, w')"
  shows "prefix (events w) (events w') \<and> prefix (download_history w) (download_history w')
       \<and> (distinct (download_history w) \<longrightarrow> distinct (download_history w'))
       \<and> (\<forall>k'. S3Download k' \<in> set (new_events w w') \<longrightarrow> k' = k \<and> k \<notin> set (download_history w))
       \<and> set (download_history w') \<subseteq> insert k (set (download_history w))
       \<and> set (names (output_dir w)) \<subseteq> set (names (output_dir w'))
       \<and> upload_history w' = upload_history w \<and> upload_fp w' = upload_fp w
       \<and> download_bucket w' = download_bucket w \<and> running w' = running w"
  using assms
  by (auto simp: download_defs new_events_def in_names_put split: option.splits if_splits entry.splits dump_outcome.splits)

lemma download_if_new_success:
  assumes "download_if_new env k w = (None, w')"
  shows "k \<in> set (download_history w')
       \<and> (k \<notin> set (download_history w) \<longrightarrow>
            new_events w w' = [S3Download k, Playsound, HistoryAppend DownloadLedger k, JsonDump DownloadLedger]
          \<and> k \<in> set (names (output_dir w'))
          \<and> download_history w' = download_history w @ [k]
          \<and> download_fp w' = Content (download_history w'))
       \<and> (k \<in> set (download_history w) \<longrightarrow> w' = w)"
  using assms
  by (auto simp: download_defs new_events_def in_names_put split: option.splits if_splits entry.splits dump_outcome.splits)

lemma download_first_append:
  assumes "download_first xs" "download_first ys"
  shows "download_first (xs @ ys)"
  unfolding download_first_def
proof (intro allI impI)
  fix pre k post
  assume eq: "xs @ ys = pre @ HistoryAppend DownloadLedger k # post"
  then consider (l) us where "xs = pre @ us" "us @ ys = HistoryAppend DownloadLedger k # post"
    | (r) us where "xs @ us = pre" "ys = us @ HistoryAppend DownloadLedger k # post"
    by (auto simp: append_eq_append_conv2)
  then show "S3Download k \<in> set pre"
  proof cases
    case l
    show ?thesis
    proof (cases us)
      case Nil
      with l have "ys = [] @ HistoryAppend DownloadLedger k # post" by simp
      with assms(2) have "S3Download k \<in> set []" unfolding download_first_def by blast
      then show ?thesis by simp
    next
      case (Cons u us')
      with l have "xs = pre @ HistoryAppend DownloadLedger k # us'" by simp
      with assms(1) show ?thesis unfolding download_first_def by blast
    qed
  next
    case r
    with assms(2) have "S3Download k \<in> set us" unfolding download_first_def by blast
    with r show ?thesis by auto
  qed
qed

lemma download_first_Nil: "download_first []"
  by (simp add: download_first_def)

lemma download_first_file:
  "download_first [S3Download k]" "download_first [S3Download k, Playsound]"
  "download_first [S3Download k, Playsound, HistoryAppend DownloadLedger k]"
  "download_first [S3Download k, Playsound, HistoryAppend DownloadLedger k, JsonDump DownloadLedger]"
  by (auto simp: download_first_def Cons_eq_append_conv)

lemma download_if_new_order:
  assumes "download_if_new env k w = (r, w')"
  shows "download_first (new_events w w')"
  using assms
  by (auto simp: download_defs new_events_def download_first_Nil download_first_file
      split: option.splits if_splits entry.splits dump_outcome.splits)

lemma run_downloads_any:
  assumes "run_steps (map (download_if_new env) ks) w = (r, w')"
  shows "prefix (events w) (events w') \<and> prefix (download_history w) (download_history w')
       \<and> (distinct (download_history w) \<longrightarrow> distinct (download_history w'))
       \<and> (\<forall>k'. S3Download k' \<in> set (new_events w w') \<longrightarrow> k' \<in> set ks \<and> k' \<notin> set (download_history w))
       \<and> set (names (output_dir w)) \<subseteq> set (names (output_dir w'))
       \<and> download_first (new_events w w')
       \<and> upload_history w' = upload_history w \<and> upload_fp w' = upload_fp w
       \<and> download_bucket w' = download_bucket w \<and> running w' = running w"
  using assms
proof (induction ks arbitrary: w)
  case Nil
  then show ?case by (simp add: new_events_self download_first_Nil)
next
  case (Cons k ks)
  obtain r1 w1 where s: "download_if_new env k w = (r1, w1)" by (cases "download_if_new env k w")
  from download_if_new_any[OF s] have
    a1: "prefix (events w) (events w1)" and a2: "prefix (download_history w) (download_history w1)"
    and a3: "distinct (download_history w) \<longrightarrow> distinct (download_history w1)"
    and a4: "\<forall>k'. S3Download k' \<in> set (new_events w w1) \<longrightarrow> k' = k \<and> k \<notin> set (download_history w)"
    and a5: "set (names (output_dir w)) \<subseteq> set (names (output_dir w1))"
    and a6: "upload_history w1 = upload_history w" "upload_fp w1 = upload_fp w"
            "download_bucket w1 = download_bucket w" "running w1 = running w"
    by blast+
  note a7 = download_if_new_order[OF s]
  show ?case
  proof (cases r1)
    case (Some e)
    with s Cons.prems have "w' = w1" by simp
    with a1 a2 a3 a4 a5 a6 a7 show ?thesis by auto
  next
    case None
    with s Cons.prems have rest: "run_steps (map (download_if_new env) ks) w1 = (r, w')" by simp
    from Cons.IH[OF rest] have
      b1: "prefix (events w1) (events w')" and b2: "prefix (download_history w1) (download_history w')"
      and b3: "distinct (download_history w1) \<longrightarrow> distinct (download_history w')"
      and b4: "\<forall>k'. S3Download k' \<in> set (new_events w1 w') \<longrightarrow> k' \<in> set ks \<and> k' \<notin> set (download_history w1)"
      and b5: "set (names (output_dir w1)) \<subseteq> set (names (output_dir w'))"
      and b7: "download_first (new_events w1 w')"
      and b6: "upload_history w' = upload_history w1" "upload_fp w' = upload_fp w1"
              "download_bucket w' = download_bucket w1" "running w' = running w1"
      by blast+
    have ne: "new_events w w' = new_events w w1 @ new_events w1 w'"
      using a1 b1 by (rule new_events_append)
    have c1: "prefix (events w) (events w')" using a1 b1 by (rule prefix_order.trans)
    have c2: "prefix (download_history w) (download_history w')" using a2 b2 by (rule prefix_order.trans)
    have c3: "distinct (download_history w) \<longrightarrow> distinct (download_history w')" using a3 b3 by blast
    have sub: "set (download_history w) \<subseteq> set (download_history w1)" using a2 by (rule set_mono_prefix)
    have c4: "\<forall>k'. S3Download k' \<in> set (new_events w w') \<longrightarrow> k' \<in> set (k # ks) \<and> k' \<notin> set (download_history w)"
    proof (intro allI impI)
      fix k' assume "S3Download k' \<in> set (new_events w w')"
      then consider "S3Download k' \<in> set (new_events w w1)" | "S3Download k' \<in> set (new_events w1 w')"
        using ne by auto
      then show "k' \<in> set (k # ks) \<and> k' \<notin> set (download_history w)"
      proof cases
        case 1 with a4 show ?thesis by auto
      next
        case 2 with b4 sub show ?thesis by auto
      qed
    qed
    have c5: "set (names (output_dir w)) \<subseteq> set (names (output_dir w'))" using a5 b5 by blast
    have c7: "download_first (new_events w w')" using a7 b7 ne by (simp add: download_first_append)
    have c6: "upload_history w' = upload_history w" "upload_fp w' = upload_fp w"
            "download_bucket w' = download_bucket w" "running w' = running w"
      using a6 b6 by simp_all
    from c1 c2 c3 c4 c5 c7 c6 show ?thesis by blast
  qed
qed

lemma run_downloads_success:
  assumes "run_steps (map (download_if_new env) ks) w = (None, w')"
  shows "set (download_history w') = set (download_history w) \<union> set ks
       \<and> (\<forall>k \<in> set ks - set (download_history w).
             S3Download k \<in> set (new_events w w') \<and> k \<in> set (names (output_dir w')))
       \<and> (w' = w \<or> download_fp w' = Content (download_history w'))"
  using assms
proof (induction ks arbitrary: w)
  case Nil
  then show ?case by simp
next
  case (Cons k ks)
  obtain r1 w1 where s: "download_if_new env k w = (r1, w1)" by (cases "download_if_new env k w")
  with Cons.prems have r1: "r1 = None" by (simp split: option.splits)
  with s Cons.prems have rest: "run_steps (map (download_if_new env) ks) w1 = (None, w')" by simp
  from download_if_new_any[OF s] have
    a1: "prefix (events w) (events w1)" by blast
  from download_if_new_success[OF s[unfolded r1]] have
    s1: "k \<in> set (download_history w1)"
    and s2: "k \<notin> set (download_history w) \<Longrightarrow> S3Download k \<in> set (new_events w w1)"
    and s3: "k \<notin> set (download_history w) \<Longrightarrow> download_history w1 = download_history w @ [k]"
    and s4: "k \<notin> set (download_history w) \<Longrightarrow> download_fp w1 = Content (download_history w1)"
    and s5: "k \<notin> set (download_history w) \<Longrightarrow> k \<in> set (names (output_dir w1))"
    and s6: "k \<in> set (download_history w) \<Longrightarrow> w1 = w"
    by simp_all
  from Cons.IH[OF rest] have
    b1: "set (download_history w') = set (download_history w1) \<union> set ks"
    and b2: "\<forall>k \<in> set ks - set (download_history w1).
             S3Download k \<in> set (new_events w1 w') \<and> k \<in> set (names (output_dir w'))"
    and b3: "w' = w1 \<or> download_fp w' = Content (download_history w')"
    by blast+
  from run_downloads_any[OF rest] have
    d1: "prefix (events w1) (events w')" and d5: "set (names (output_dir w1)) \<subseteq> set (names (output_dir w'))"
    by blast+
  have ne: "new_events w w' = new_events w w1 @ new_events w1 w'"
    using a1 d1 by (rule new_events_append)
  have h1: "set (download_history w1) = insert k (set (download_history w))"
  proof (cases "k \<in> set (download_history w)")
    case True with s6 show ?thesis by auto
  next
    case False with s3 show ?thesis by simp
  qed
  have c1: "set (download_history w') = set (download_history w) \<union> set (k # ks)"
    using b1 h1 by auto
  have c2: "\<forall>k' \<in> set (k # ks) - set (download_history w).
             S3Download k' \<in> set (new_events w w') \<and> k' \<in> set (names (output_dir w'))"
  proof
    fix k' assume k': "k' \<in> set (k # ks) - set (download_history w)"
    show "S3Download k' \<in> set (new_events w w') \<and> k' \<in> set (names (output_dir w'))"
    proof (cases "k' = k")
      case True
      with k' have "k \<notin> set (download_history w)" by simp
      from s2[OF this] s5[OF this] d5 ne True show ?thesis by auto
    next
      case False
      with k' h1 have "k' \<in> set ks - set (download_history w1)" by auto
      with b2 have "S3Download k' \<in> set (new_events w1 w') \<and> k' \<in> set (names (output_dir w'))" by blast
      with ne show ?thesis by simp
    qed
  qed
  have c3: "w' = w \<or> download_fp w' = Content (download_history w')"
  proof (cases "k \<in> set (download_history w)")
    case True
    with s6 b3 show ?thesis by auto
  next
    case False
    from s4[OF this] b3 show ?thesis by auto
  qed
  from c1 c2 c3 show ?case by blast
qed

lemma download_first_list: "download_first [S3ListObjects]"
  by (auto simp: download_first_def Cons_eq_append_conv)

lemma check_for_downloads_cases:
  assumes "check_for_downloads env w = (r, w')"
  shows "(list_fails env \<and> r = Some TransferError \<and> w' = emit S3ListObjects w)
       \<or> (\<not> list_fails env \<and>
           run_steps (map (download_if_new env) (download_bucket w)) (emit S3ListObjects w) = (r, w'))"
  using assms
  by (auto simp: check_for_downloads_def list_s3_files_def list_objects_def Let_def emit_def
      split: if_splits)

lemma new_events_emit:
  "prefix (events (emit ev w)) (events w') \<Longrightarrow> new_events w w' = ev # new_events (emit ev w) w'"
  by (auto simp: new_events_def emit_def prefix_def)

lemma emit_fields [simp]:
  "download_history (emit ev w) = download_history w" "upload_history (emit ev w) = upload_history w"
  "download_fp (emit ev w) = download_fp w" "upload_fp (emit ev w) = upload_fp w"
  "download_bucket (emit ev w) = download_bucket w" "upload_bucket (emit ev w) = upload_bucket w"
  "input_dir (emit ev w) = input_dir w" "archive_dir (emit ev w) = archive_dir w"
  "output_dir (emit ev w) = output_dir w" "running (emit ev w) = running w"
  "events (emit ev w) = events w @ [ev]"
  by (simp_all add: emit_def)

lemma new_events_emit_self: "new_events w (emit ev w) = [ev]"
  by (simp add: new_events_def)

lemma check_for_downloads_any:
  assumes "check_for_downloads env w = (r, w')"
  shows "prefix (events w) (events w')" "prefix (download_history w) (download_history w')"
    "distinct (download_history w) \<Longrightarrow> distinct (download_history w')"
    "S3Download k \<in> set (new_events w w') \<Longrightarrow> k \<in> set (download_bucket w) \<and> k \<notin> set (download_history w)"
    "set (names (output_dir w)) \<subseteq> set (names (output_dir w'))"
    "download_first (new_events w w')"
    "upload_history w' = upload_history w" "upload_fp w' = upload_fp w"
    "download_bucket w' = download_bucket w" "running w' = running w"
proof -
  from check_for_downloads_cases[OF assms]
  consider (fail) "r = Some TransferError" "w' = emit S3ListObjects w"
    | (run) "run_steps (map (download_if_new env) (download_bucket w)) (emit S3ListObjects w) = (r, w')"
    by blast
  then have "prefix (events w) (events w') \<and> prefix (download_history w) (download_history w')
       \<and> (distinct (download_history w) \<longrightarrow> distinct (download_history w'))
       \<and> (\<forall>k'. S3Download k' \<in> set (new_events w w') \<longrightarrow> k' \<in> set (download_bucket w) \<and> k' \<notin> set (download_history w))
       \<and> set (names (output_dir w)) \<subseteq> set (names (output_dir w'))
       \<and> download_first (new_events w w')
       \<and> upload_history w' = upload_history w \<and> upload_fp w' = upload_fp w
       \<and> download_bucket w' = download_bucket w \<and> running w' = running w"
  proof cases
    case fail
    then show ?thesis by (simp add: new_events_emit_self download_first_list)
  next
    case run
    from run_downloads_any[OF run] have
      b1: "prefix (events (emit S3ListObjects w)) (events w')"
      and b2: "prefix (download_history w) (download_history w')"
      and b3: "distinct (download_history w) \<longrightarrow> distinct (download_history w')"
      and b4: "\<forall>k'. S3Download k' \<in> set (new_events (emit S3ListObjects w) w') \<longrightarrow>
                 k' \<in> set (download_bucket w) \<and> k' \<notin> set (download_history w)"
      and b5: "set (names (output_dir w)) \<subseteq> set (names (output_dir w'))"
      and b7: "download_first (new_events (emit S3ListObjects w) w')"
      and b6: "upload_history w' = upload_history w" "upload_fp w' = upload_fp w"
              "download_bucket w' = download_bucket w" "running w' = running w"
      by simp_all
    note ne = new_events_emit[OF b1]
    have c1: "prefix (events w) (events w')"
      using b1 by (auto simp: prefix_def)
    have c7: "download_first (new_events w w')"
      using download_first_append[OF download_first_list b7] ne by simp
    have c4: "\<forall>k'. S3Download k' \<in> set (new_events w w') \<longrightarrow> k' \<in> set (download_bucket w) \<and> k' \<notin> set (download_history w)"
      using b4 ne by simp
    from c1 b2 b3 c4 b5 c7 b6 show ?thesis by blast
  qed
  then show "prefix (events w) (events w')" "prefix (download_history w) (download_history w')"
    "distinct (download_history w) \<Longrightarrow> distinct (download_history w')"
    "S3Download k \<in> set (new_events w w') \<Longrightarrow> k \<in> set (download_bucket w) \<and> k \<notin> set (download_history w)"
    "set (names (output_dir w)) \<subseteq> set (names (output_dir w'))"
    "download_first (new_events w w')"
    "upload_history w' = upload_history w" "upload_fp w' = upload_fp w"
    "download_bucket w' = download_bucket w" "running w' = running w"
    by blast+
qed

lemma check_for_downloads_success:
  assumes "check_for_downloads env w = (None, w')"
  shows "set (download_history w') = set (download_history w) \<union> set (download_bucket w)"
    "k \<in> set (download_bucket w) \<Longrightarrow> k \<notin> set (download_history w) \<Longrightarrow>
       S3Download k \<in> set (new_events w w') \<and> k \<in> set (names (output_dir w'))
       \<and> download_fp w' = Content (download_history w')"
proof -
  from check_for_downloads_cases[OF assms]
  have run: "run_steps (map (download_if_new env) (download_bucket w)) (emit S3ListObjects w) = (None, w')"
    by blast
  from run_downloads_any[OF run] have b1: "prefix (events (emit S3ListObjects w)) (events w')"
    by blast
  note ne = new_events_emit[OF b1]
  from run_downloads_success[OF run] have
    s1: "set (download_history w') = set (download_history w) \<union> set (download_bucket w)"
    and s2: "\<forall>k \<in> set (download_bucket w) - set (download_history w).
             S3Download k \<in> set (new_events (emit S3ListObjects w) w') \<and> k \<in> set (names (output_dir w'))"
    and s3: "w' = emit S3ListObjects w \<or> download_fp w' = Content (download_history w')"
    by simp_all
  show "set (download_history w') = set (download_history w) \<union> set (download_bucket w)" by (rule s1)
  assume k: "k \<in> set (download_bucket w)" "k \<notin> set (download_history w)"
  with s2 have e: "S3Download k \<in> set (new_events (emit S3ListObjects w) w')"
    and o: "k \<in> set (names (output_dir w'))" by auto
  from e have "w' \<noteq> emit S3ListObjects w" by (auto simp: new_events_self)
  with s3 have "download_fp w' = Content (download_history w')" by simp
  with e o ne show "S3Download k \<in> set (new_events w w') \<and> k \<in> set (names (output_dir w'))
       \<and> download_fp w' = Content (download_history w')" by simp
qed

lemmas world_defs = fresh_def blank_def init_def create_if_missing_def json_load_def env_ok_def

lemma scenario3_run: "check_for_downloads env_ok w_scenario3 = (None, w_scenario3_after)"
  by (simp add: w_scenario3_def w_scenario3_after_def world_defs check_for_downloads_def
      list_s3_files_def list_objects_def download_defs dir_put_def dir_remove_def)

lemma run_steps_append:
  "run_steps (xs @ ys) w =
     (case run_steps xs w of (None, w') \<Rightarrow> run_steps ys w' | (Some e, w') \<Rightarrow> (Some e, w'))"
  by (induction xs arbitrary: w) (auto split: prod.splits option.splits)

lemma reach_not_Nil [simp]: "reach ss w \<noteq> []"
  by (cases ss) auto

lemma last_reach: "last (reach ss w) = snd (run_steps ss w)"
  by (induction ss arbitrary: w) (auto split: prod.splits option.splits)

lemma run_steps_invariant:
  assumes "\<And>s v r v'. s \<in> set ss \<Longrightarrow> s v = (r, v') \<Longrightarrow> P v \<Longrightarrow> P v'"
    and "run_steps ss w = (r, w')" and "P w"
  shows "P w'"
  using assms
proof (induction ss arbitrary: w)
  case Nil
  then show ?case by simp
next
  case (Cons s ss)
  obtain r1 w1 where s: "s w = (r1, w1)" by (cases "s w")
  have p1: "P w1" using Cons.prems(1)[of s w r1 w1] s Cons.prems(3) by simp
  have step: "\<And>t v q v'. t \<in> set ss \<Longrightarrow> t v = (q, v') \<Longrightarrow> P v \<Longrightarrow> P v'"
  proof -
    fix t v q v' assume "t \<in> set ss" "t v = (q, v')" "P v"
    then show "P v'" using Cons.prems(1)[of t v q v'] by simp
  qed
  show ?case
  proof (cases r1)
    case (Some e)
    with s Cons.prems(2) have "w' = w1" by simp
    with p1 show ?thesis by simp
  next
    case None
    with s Cons.prems(2) have rest: "run_steps ss w1 = (r, w')" by simp
    from Cons.IH[OF step rest p1] show ?thesis .
  qed
qed

lemma upload_file_synced:
  assumes "upload_file env x w = (r, w')" "dump env UploadLedger = Written"
    "upload_fp w = Content (upload_history w)"
  shows "upload_fp w' = Content (upload_history w')"
  using assms
  by (auto simp: upload_defs split: option.splits if_splits entry.splits dump_outcome.splits)

lemma download_if_new_synced:
  assumes "download_if_new env x w = (r, w')" "dump env DownloadLedger = Written"
    "download_fp w = Content (download_history w)"
  shows "download_fp w' = Content (download_history w')"
  using assms
  by (auto simp: download_defs split: option.splits if_splits entry.splits dump_outcome.splits)

lemma upload_files_synced:
  assumes "upload_files env files w = (r, w')" "dump env UploadLedger = Written"
    "upload_fp w = Content (upload_history w)"
  shows "upload_fp w' = Content (upload_history w')"
proof (rule run_steps_invariant[where P = "\<lambda>v. upload_fp v = Content (upload_history v)"
      and ss = "map (upload_file env) files" and w = w and r = r])
  show "run_steps (map (upload_file env) files) w = (r, w')"
    using assms(1) by (simp add: upload_files_def)
  show "upload_fp w = Content (upload_history w)" by (rule assms(3))
next
  fix s v r v'
  assume "s \<in> set (map (upload_file env) files)" "s v = (r, v')"
    "upload_fp v = Content (upload_history v)"
  then show "upload_fp v' = Content (upload_history v')"
    using upload_file_synced[OF _ assms(2)] by auto
qed

lemma run_downloads_synced:
  assumes "run_steps (map (download_if_new env) ks) w = (r, w')" "dump env DownloadLedger = Written"
    "download_fp w = Content (download_history w)"
  shows "download_fp w' = Content (download_history w')"
proof (rule run_steps_invariant[where P = "\<lambda>v. download_fp v = Content (download_history v)"
      and ss = "map (download_if_new env) ks" and w = w and r = r])
  show "run_steps (map (download_if_new env) ks) w = (r, w')" by (rule assms(1))
  show "download_fp w = Content (download_history w)" by (rule assms(3))
next
  fix s v r v'
  assume "s \<in> set (map (download_if_new env) ks)" "s v = (r, v')"
    "download_fp v = Content (download_history v)"
  then show "download_fp v' = Content (download_history v')"
    using download_if_new_synced[OF _ assms(2)] by auto
qed

lemma upload_files_any:
  assumes "upload_files env files w = (r, w')"
  shows "prefix (upload_history w) (upload_history w')" "prefix (events w) (events w')"
    "download_history w' = download_history w" "download_fp w' = download_fp w" "running w' = running w"
proof -
  have "prefix (upload_history w) (upload_history w') \<and> prefix (events w) (events w')
    \<and> download_history w' = download_history w \<and> download_fp w' = download_fp w \<and> running w' = running w"
    using assms unfolding upload_files_def
  proof (induction files arbitrary: w)
    case Nil
    then show ?case by simp
  next
    case (Cons x xs)
    obtain r1 w1 where s: "upload_file env x w = (r1, w1)" by (cases "upload_file env x w")
    from upload_file_any[OF s] have
      a1: "prefix (upload_history w) (upload_history w1)" and a2: "prefix (events w) (events w1)"
      and a3: "download_history w1 = download_history w" "download_fp w1 = download_fp w" "running w1 = running w"
      by simp_all
    show ?case
    proof (cases r1)
      case (Some e)
      with s Cons.prems have "w' = w1" by simp
      with a1 a2 a3 show ?thesis by simp
    next
      case None
      with s Cons.prems have rest: "run_steps (map (upload_file env) xs) w1 = (r, w')" by simp
      from Cons.IH[OF rest] have
        b1: "prefix (upload_history w1) (upload_history w')" and b2: "prefix (events w1) (events w')"
        and b3: "download_history w' = download_history w1" "download_fp w' = download_fp w1" "running w' = running w1"
        by blast+
      have c1: "prefix (upload_history w) (upload_history w')" using a1 b1 by (rule prefix_order.trans)
      have c2: "prefix (events w) (events w')" using a2 b2 by (rule prefix_order.trans)
      from c1 c2 a3 b3 show ?thesis by simp
    qed
  qed
  then show "prefix (upload_history w) (upload_history w')" "prefix (events w) (events w')"
    "download_history w' = download_history w" "download_fp w' = download_fp w" "running w' = running w"
    by blast+
qed

lemma upload_files_success:
  assumes "upload_files env files w = (None, w')" "n \<in> set files"
  shows "OsStat (InputDir, stored_name n) \<in> set (new_events w w')
       \<and> S3Upload (stored_name n) (stored_name n) \<in> set (new_events w w')"
  using assms unfolding upload_files_def
proof (induction files arbitrary: w)
  case Nil
  then show ?case by simp
next
  case (Cons x xs)
  obtain r1 w1 where s: "upload_file env x w = (r1, w1)" by (cases "upload_file env x w")
  with Cons.prems have r1: "r1 = None" by (simp split: option.splits)
  with s Cons.prems have rest: "run_steps (map (upload_file env) xs) w1 = (None, w')" by simp
  from upload_file_any[OF s] have a2: "prefix (events w) (events w1)" by simp
  from upload_files_any(2)[OF rest[folded upload_files_def]] have b2: "prefix (events w1) (events w')" .
  have ne: "new_events w w' = new_events w w1 @ new_events w1 w'"
    using a2 b2 by (rule new_events_append)
  show ?case
  proof (cases "n = x")
    case True
    from upload_file_success[OF s[unfolded r1]]
    have "OsStat (InputDir, stored_name x) \<in> set (new_events w w1)
       \<and> S3Upload (stored_name x) (stored_name x) \<in> set (new_events w w1)"
      by (simp add: new_events_def)
    with ne True show ?thesis by simp
  next
    case False
    with Cons.prems have "n \<in> set xs" by simp
    from Cons.IH[OF rest this] ne show ?thesis by simp
  qed
qed

lemmas eval_defs = world_defs upload_defs download_defs check_for_downloads_def list_s3_files_def
  list_objects_def input_iteration_def check_input_files_def upload_files_def names_def
  dir_put_def dir_remove_def deliver_def handle_termination_signal_def stored_name_def
  replace_spaces_def

lemma scenario1_run: "upload_file env_ok ''report final.csv'' w_scenario1 = (None, w_scenario1_after)"
  by (simp add: w_scenario1_def w_scenario1_after_def eval_defs)

lemma stored_name_eq: "stored_name n = replace_spaces n"
  by (simp add: stored_name_def replace_spaces_id)

lemma replace_spaces_eq_iff: "replace_spaces n = n \<longleftrightarrow> CHR '' '' \<notin> set n"
  using replace_spaces_no_space[of n] replace_spaces_id[of n] by auto

lemma upload_a_fails: "upload_file env_upload_a_fails ''a'' w_two_files = (Some TransferError, w_two_files_failed)"
  by (simp add: env_upload_a_fails_def w_two_files_def w_two_files_failed_def eval_defs)

lemma download_a_fails:
  "download_if_new env_download_a_fails ''a.txt'' (emit S3ListObjects w_scenario2) =
     (Some TransferError, w_scenario2_failed)"
  by (simp add: env_download_a_fails_def w_scenario2_def w_scenario2_failed_def eval_defs)

lemma download_if_new_transfer_error:
  assumes "download_if_new env k w = (Some TransferError, w')"
  shows "download_history w' = download_history w \<and> download_fp w' = download_fp w
       \<and> k \<notin> set (download_history w') \<and> output_dir w' = output_dir w"
  using assms
  by (auto simp: download_defs split: option.splits if_splits entry.splits dump_outcome.splits)

lemma run_steps_stops:
  assumes "run_steps xs w = (None, w1)" "s w1 = (Some e, w2)"
  shows "run_steps (xs @ s # ys) w = (Some e, w2)"
  using assms by (simp add: run_steps_append)

lemma new_events_cong: "events v = events w \<Longrightarrow> new_events v w' = new_events w w'"
  by (simp add: new_events_def)

lemma deliver_fields [simp]:
  "events (deliver env w) = events w" "download_history (deliver env w) = download_history w"
  "upload_history (deliver env w) = upload_history w"
  by (simp_all add: deliver_def handle_termination_signal_def)

lemma time_sleep_fields [simp]:
  "events (time_sleep env w) = events w @ [Sleep]"
  "download_history (time_sleep env w) = download_history w"
  "upload_history (time_sleep env w) = upload_history w"
  "download_fp (time_sleep env w) = download_fp w" "upload_fp (time_sleep env w) = upload_fp w"
  "clock (time_sleep env w) = clock w + sleep_interval w"
  by (simp_all add: time_sleep_def handle_termination_signal_def emit_def Let_def split: option.splits)

lemma new_events_step:
  "events v = events w @ [ev] \<Longrightarrow> prefix (events v) (events w') \<Longrightarrow>
   new_events w w' = ev # new_events v w'"
  by (auto simp: new_events_def prefix_def)

lemma manage_output_any:
  assumes "manage_output envs w = (r, w')"
  shows "prefix (events w) (events w') \<and> prefix (download_history w) (download_history w')
       \<and> (\<forall>k. S3Download k \<in> set (new_events w w') \<longrightarrow> k \<notin> set (download_history w))"
  using assms
proof (induction envs arbitrary: w)
  case Nil
  then show ?case by (simp add: new_events_self)
next
  case (Cons env envs)
  let ?w0 = "deliver env w"
  have e0: "events ?w0 = events w" and h0: "download_history ?w0 = download_history w" by simp_all
  show ?case
  proof (cases "running ?w0")
    case False
    with Cons.prems have "w' = ?w0" by (simp add: Let_def)
    then show ?thesis by (simp add: new_events_def)
  next
    case True
    obtain r1 w1 where c: "check_for_downloads env ?w0 = (r1, w1)"
      by (cases "check_for_downloads env ?w0")
    note a = check_for_downloads_any[OF c]
    have a1: "prefix (events w) (events w1)" using a(1) e0 by simp
    have a2: "prefix (download_history w) (download_history w1)" using a(2) h0 by simp
    have a4: "\<forall>k. S3Download k \<in> set (new_events w w1) \<longrightarrow> k \<notin> set (download_history w)"
      using a(4) h0 new_events_cong[OF e0, of w1] by auto
    show ?thesis
    proof (cases r1)
      case (Some e)
      with c True Cons.prems have "w' = w1" by (simp add: Let_def)
      with a1 a2 a4 show ?thesis by simp
    next
      case None
      with c True Cons.prems have rest: "manage_output envs (time_sleep env w1) = (r, w')"
        by (simp add: Let_def)
      from Cons.IH[OF rest] have
        b1: "prefix (events w1 @ [Sleep]) (events w')"
        and b2: "prefix (download_history w1) (download_history w')"
        and b4: "\<forall>k. S3Download k \<in> set (new_events (time_sleep env w1) w') \<longrightarrow> k \<notin> set (download_history w1)"
        by simp_all
      have b1': "prefix (events w1) (events w')" using b1 by (auto simp: prefix_def)
      have ne1: "new_events w1 w' = Sleep # new_events (time_sleep env w1) w'"
        using b1 by (intro new_events_step) simp_all
      have ne: "new_events w w' = new_events w w1 @ new_events w1 w'"
        using a1 b1' by (rule new_events_append)
      have sub: "set (download_history w) \<subseteq> set (download_history w1)" using a2 by (rule set_mono_prefix)
      have c1: "prefix (events w) (events w')" using a1 b1' by (rule prefix_order.trans)
      have c2: "prefix (download_history w) (download_history w')" using a2 b2 by (rule prefix_order.trans)
      have c4: "\<forall>k. S3Download k \<in> set (new_events w w') \<longrightarrow> k \<notin> set (download_history w)"
      proof (intro allI impI)
        fix k assume "S3Download k \<in> set (new_events w w')"
        then consider "S3Download k \<in> set (new_events w w1)"
          | "S3Download k \<in> set (new_events (time_sleep env w1) w')"
          using ne ne1 by auto
        then show "k \<notin> set (download_history w)"
        proof cases
          case 1 with a4 show ?thesis by blast
        next
          case 2 with b4 sub show ?thesis by blast
        qed
      qed
      from c1 c2 c4 show ?thesis by blast
    qed
  qed
qed

lemma upload_file_ignores_history:
  "fst (upload_file env name (w\<lparr>upload_history := h\<rparr>)) = fst (upload_file env name w)
   \<and> new_events (w\<lparr>upload_history := h\<rparr>) (snd (upload_file env name (w\<lparr>upload_history := h\<rparr>)))
       = new_events w (snd (upload_file env name w))"
  by (auto simp: upload_defs new_events_def split: option.splits if_splits entry.splits dump_outcome.splits)

lemma input_iteration_cases:
  assumes "input_iteration env w = (r, w')"
  shows "(check_input_files w = [] \<and> r = None \<and> w' = w)
       \<or> upload_files env (check_input_files w) w = (r, w')"
  using assms by (auto simp: input_iteration_def Let_def split: if_splits)

lemma upload_file_first_event:
  "\<exists>evs. new_events w (snd (upload_file env n w)) =
      (if CHR '' '' \<in> set n then OsRename (InputDir, n) (InputDir, replace_spaces n)
       else OsStat (InputDir, n)) # evs"
  by (auto simp: upload_defs new_events_def stored_name_def split: option.splits if_splits entry.splits dump_outcome.splits)

lemma second_a_history:
  "upload_history w_second_a = [''a'']" "upload_fp w_second_a = Content [''a'']"
  "upload_bucket w_second_a = [''a'']" "input_dir w_second_a = [(''a'', RegularFile)]"
  "archive_dir w_second_a = [(''a'', RegularFile)]" "running w_second_a"
  by (simp_all add: w_second_a_def w_first_a_def time_sleep_def eval_defs)

lemma second_a_run:
  "manage_input [env_ok] w_second_a =
     (StillRunning, w_second_a\<lparr>input_dir := [], upload_bucket := [''a'', ''a''],
        upload_fp := Content [''a'', ''a''], upload_history := [''a'', ''a''],
        events := events w_second_a @
          [OsStat (InputDir, ''a''), S3Upload ''a'' ''a'', HistoryAppend UploadLedger ''a'',
           JsonDump UploadLedger, OsRename (InputDir, ''a'') (ArchiveDir, ''a''), Sleep],
        clock := clock w_second_a + sleep_interval w_second_a\<rparr>)"
  by (simp add: w_second_a_def w_first_a_def time_sleep_def eval_defs)

lemma upload_files_first_event:
  "\<exists>evs. new_events w (snd (upload_files env (n # ns) w)) =
      (if CHR '' '' \<in> set n then OsRename (InputDir, n) (InputDir, replace_spaces n)
       else OsStat (InputDir, n)) # evs"
proof -
  obtain r1 w1 where s: "upload_file env n w = (r1, w1)" by (cases "upload_file env n w")
  from upload_file_first_event[of w env n] s obtain evs1 where
    e1: "new_events w w1 =
      (if CHR '' '' \<in> set n then OsRename (InputDir, n) (InputDir, replace_spaces n)
       else OsStat (InputDir, n)) # evs1"
    by auto
  from upload_file_any[OF s] have p1: "prefix (events w) (events w1)" by simp
  show ?thesis
  proof (cases r1)
    case (Some e)
    with s have "snd (upload_files env (n # ns) w) = w1" by (simp add: upload_files_def)
    with e1 show ?thesis by simp
  next
    case None
    obtain r w' where rest: "upload_files env ns w1 = (r, w')" by (cases "upload_files env ns w1")
    with s None have f: "snd (upload_files env (n # ns) w) = w'" by (simp add: upload_files_def)
    from upload_files_any(2)[OF rest] have p2: "prefix (events w1) (events w')" .
    from new_events_append[OF p1 p2] e1 f show ?thesis by simp
  qed
qed
lemma map_of_dir_put: "map_of (dir_put n e d) n = Some e"
proof -
  have "map_of (filter (\<lambda>p. fst p \<noteq> n) d) n = None"
    by (auto simp: map_of_eq_None_iff)
  then show ?thesis
    by (simp add: dir_put_def dir_remove_def map_add_def)
qed

lemma upload_file_uploads:
  assumes "map_of (input_dir w) name = Some RegularFile"
    and "CHR '' '' \<in> set name \<longrightarrow> \<not> rename_fails env (InputDir, name) (InputDir, replace_spaces name)"
    and "\<not> stat_fails env (InputDir, replace_spaces name)"
    and "\<not> upload_fails env (replace_spaces name)"
  shows "S3Upload (replace_spaces name) (replace_spaces name)
           \<in> set (new_events w (snd (upload_file env name w)))
       \<and> upload_bucket (snd (upload_file env name w)) = upload_bucket w @ [replace_spaces name]"
proof (cases "CHR '' '' \<in> set name")
  case True
  with assms show ?thesis
    by (auto simp: upload_defs new_events_def stored_name_def map_of_dir_put
        split: option.splits entry.splits dump_outcome.splits)
next
  case False
  with assms show ?thesis
    by (auto simp: upload_defs new_events_def stored_name_def replace_spaces_id
        split: option.splits entry.splits dump_outcome.splits)
qed

lemma upload_file_directory:
  assumes "map_of (input_dir w) x = Some Directory"
    and "CHR '' '' \<in> set x \<longrightarrow> \<not> rename_fails env (InputDir, x) (InputDir, replace_spaces x)"
    and "\<not> stat_fails env (InputDir, stored_name x)"
  shows "fst (upload_file env x w) = Some IsADirectoryError
       \<and> last (events (snd (upload_file env x w))) = S3Upload (stored_name x) (stored_name x)
       \<and> upload_history (snd (upload_file env x w)) = upload_history w
       \<and> archive_dir (snd (upload_file env x w)) = archive_dir w"
proof (cases "CHR '' '' \<in> set x")
  case True
  with assms show ?thesis
    by (auto simp: upload_defs stored_name_def map_of_dir_put
        split: option.splits entry.splits dump_outcome.splits)
next
  case False
  with assms show ?thesis
    by (auto simp: upload_defs stored_name_def
        split: option.splits entry.splits dump_outcome.splits)
qed

lemma upload_files_reaches:
  assumes "upload_files env pre w = (None, w1)"
  shows "\<exists>evs. new_events w (snd (upload_files env (pre @ x # post) w)) =
           new_events w w1 @
           (if CHR '' '' \<in> set x then OsRename (InputDir, x) (InputDir, replace_spaces x)
            else OsStat (InputDir, x)) # evs"
proof -
  have eq: "upload_files env (pre @ x # post) w = upload_files env (x # post) w1"
    using assms by (simp add: upload_files_def run_steps_append)
  from upload_files_any(2)[OF assms] have p1: "prefix (events w) (events w1)" .
  obtain r w' where f: "upload_files env (x # post) w1 = (r, w')"
    by (cases "upload_files env (x # post) w1")
  from upload_files_any(2)[OF f] have p2: "prefix (events w1) (events w')" .
  from upload_files_first_event[of w1 env x post] f obtain evs where
    e: "new_events w1 w' =
          (if CHR '' '' \<in> set x then OsRename (InputDir, x) (InputDir, replace_spaces x)
           else OsStat (InputDir, x)) # evs"
    by auto
  from new_events_append[OF p1 p2] e eq f show ?thesis by simp
qed

lemma file_subdir_file_first:
  "upload_files env_ok [''a''] w_file_subdir_file = (None, w_file_subdir_file_1)"
  by (simp add: w_file_subdir_file_def w_file_subdir_file_1_def eval_defs)

lemma file_subdir_file_run:
  "input_iteration env_ok w_file_subdir_file =
     (Some IsADirectoryError,
      w_file_subdir_file_1\<lparr>events := events w_file_subdir_file_1 @
         [OsStat (InputDir, ''sub''), S3Upload ''sub'' ''sub'']\<rparr>)"
  by (simp add: w_file_subdir_file_def w_file_subdir_file_1_def eval_defs)







lemma deliver_more_fields [simp]:
  "upload_fp (deliver env w) = upload_fp w" "download_fp (deliver env w) = download_fp w"
  "clock (deliver env w) = clock w" "sleep_interval (deliver env w) = sleep_interval w"
  by (simp_all add: deliver_def handle_termination_signal_def)


lemma init_loads:
  assumes "init kw w = (None, w0)"
  shows "upload_fp w0 = Content (upload_history w0)" "download_fp w0 = Content (download_history w0)"
    "upload_fp w = Content l \<Longrightarrow> upload_history w0 = l"
    "download_fp w = Content l \<Longrightarrow> download_history w0 = l"
  using assms
  by (auto simp: init_def create_if_missing_def json_load_def Let_def
      split: history_file.splits sum.splits)

lemma manage_input_ledger:
  assumes "manage_input envs w = (r, w')"
  shows "prefix (upload_history w) (upload_history w')
       \<and> ((\<forall>env \<in> set envs. dump env UploadLedger = Written) \<and> upload_fp w = Content (upload_history w)
            \<longrightarrow> upload_fp w' = Content (upload_history w'))"
  using assms
proof (induction envs arbitrary: w)
  case Nil
  then show ?case by simp
next
  case (Cons env envs)
  let ?w0 = "deliver env w"
  show ?case
  proof (cases "running ?w0")
    case False
    with Cons.prems have "w' = ?w0" by (simp add: Let_def)
    then show ?thesis by simp
  next
    case True
    obtain r1 w1 where c: "input_iteration env ?w0 = (r1, w1)" by (cases "input_iteration env ?w0")
    from input_iteration_cases[OF c]
    consider (none) "w1 = ?w0" | (run) "upload_files env (check_input_files ?w0) ?w0 = (r1, w1)"
      by blast
    then have a: "prefix (upload_history w) (upload_history w1)
       \<and> (dump env UploadLedger = Written \<and> upload_fp w = Content (upload_history w)
            \<longrightarrow> upload_fp w1 = Content (upload_history w1))"
    proof cases
      case none
      then show ?thesis by simp
    next
      case run
      from upload_files_any(1)[OF run] upload_files_synced[OF run] show ?thesis by simp
    qed
    show ?thesis
    proof (cases r1)
      case (Some e)
      with c True Cons.prems have "w' = w1" by (simp add: Let_def)
      with a show ?thesis by simp
    next
      case None
      with c True Cons.prems have rest: "manage_input envs (time_sleep env w1) = (r, w')"
        by (simp add: Let_def)
      from Cons.IH[OF rest] have
        b: "prefix (upload_history w1) (upload_history w')
         \<and> ((\<forall>env \<in> set envs. dump env UploadLedger = Written) \<and> upload_fp w1 = Content (upload_history w1)
              \<longrightarrow> upload_fp w' = Content (upload_history w'))"
        by simp
      from a b have "prefix (upload_history w) (upload_history w')"
        by (blast intro: prefix_order.trans)
      moreover from a b have "(\<forall>env \<in> set (env # envs). dump env UploadLedger = Written)
            \<and> upload_fp w = Content (upload_history w)
            \<longrightarrow> upload_fp w' = Content (upload_history w')"
        by simp
      ultimately show ?thesis by blast
    qed
  qed
qed

lemma check_for_downloads_synced:
  assumes "check_for_downloads env w = (r, w')" "dump env DownloadLedger = Written"
    "download_fp w = Content (download_history w)"
  shows "download_fp w' = Content (download_history w')"
proof -
  from check_for_downloads_cases[OF assms(1)]
  consider (fail) "w' = emit S3ListObjects w"
    | (run) "run_steps (map (download_if_new env) (download_bucket w)) (emit S3ListObjects w) = (r, w')"
    by blast
  then show ?thesis
  proof cases
    case fail
    with assms(3) show ?thesis by simp
  next
    case run
    from run_downloads_synced[OF run assms(2)] assms(3) show ?thesis by simp
  qed
qed

lemma manage_output_ledger:
  assumes "manage_output envs w = (r, w')"
  shows "(distinct (download_history w) \<longrightarrow> distinct (download_history w'))
       \<and> ((\<forall>env \<in> set envs. dump env DownloadLedger = Written)
            \<and> download_fp w = Content (download_history w)
            \<longrightarrow> download_fp w' = Content (download_history w'))"
  using assms
proof (induction envs arbitrary: w)
  case Nil
  then show ?case by simp
next
  case (Cons env envs)
  let ?w0 = "deliver env w"
  show ?case
  proof (cases "running ?w0")
    case False
    with Cons.prems have "w' = ?w0" by (simp add: Let_def)
    then show ?thesis by simp
  next
    case True
    obtain r1 w1 where c: "check_for_downloads env ?w0 = (r1, w1)"
      by (cases "check_for_downloads env ?w0")
    from check_for_downloads_any(3)[OF c] check_for_downloads_synced[OF c]
    have a: "(distinct (download_history w) \<longrightarrow> distinct (download_history w1))
       \<and> (dump env DownloadLedger = Written \<and> download_fp w = Content (download_history w)
            \<longrightarrow> download_fp w1 = Content (download_history w1))"
      by simp
    show ?thesis
    proof (cases r1)
      case (Some e)
      with c True Cons.prems have "w' = w1" by (simp add: Let_def)
      with a show ?thesis by simp
    next
      case None
      with c True Cons.prems have rest: "manage_output envs (time_sleep env w1) = (r, w')"
        by (simp add: Let_def)
      from Cons.IH[OF rest] have
        b: "(distinct (download_history w1) \<longrightarrow> distinct (download_history w'))
         \<and> ((\<forall>env \<in> set envs. dump env DownloadLedger = Written)
              \<and> download_fp w1 = Content (download_history w1)
              \<longrightarrow> download_fp w' = Content (download_history w'))"
        by simp
      from a b show ?thesis by simp
    qed
  qed
qed

lemma reach_take:
  "s \<in> set (reach ss w) \<Longrightarrow> \<exists>n\<le>length ss. s = snd (run_steps (take n ss) w)"
proof (induction ss arbitrary: w)
  case Nil
  then show ?case by simp
next
  case (Cons a ss)
  obtain r1 w1 where a: "a w = (r1, w1)" by (cases "a w")
  show ?case
  proof (cases "s = w")
    case True
    then have "s = snd (run_steps (take 0 (a # ss)) w)" by simp
    then show ?thesis by blast
  next
    case False
    show ?thesis
    proof (cases r1)
      case (Some e)
      with a Cons.prems False have "s = w1" by simp
      with a Some have "s = snd (run_steps (take (Suc 0) (a # ss)) w)" by simp
      moreover have "Suc 0 \<le> length (a # ss)" by simp
      ultimately show ?thesis by blast
    next
      case None
      with a Cons.prems False have "s \<in> set (reach ss w1)" by simp
      from Cons.IH[OF this] obtain n where n: "n \<le> length ss" "s = snd (run_steps (take n ss) w1)"
        by blast
      with a None have "s = snd (run_steps (take (Suc n) (a # ss)) w)" by simp
      moreover from n have "Suc n \<le> length (a # ss)" by simp
      ultimately show ?thesis by blast
    qed
  qed
qed

lemma upload_file_stage:
  assumes "n \<le> 6"
  shows "(OsRename (InputDir, stored_name name) (ArchiveDir, stored_name name)
            \<in> set (new_events w (snd (run_steps (take n (upload_file_steps env name)) w)))
          \<or> stored_name name \<notin> set (names (archive_dir w))
            \<and> stored_name name
                 \<in> set (names (archive_dir (snd (run_steps (take n (upload_file_steps env name)) w)))))
         \<longrightarrow> (\<exists>l. upload_fp (snd (run_steps (take n (upload_file_steps env name)) w)) = Content l
                  \<and> stored_name name \<in> set l)"
proof -
  from assms consider "n = 0" | "n = 1" | "n = 2" | "n = 3" | "n = 4" | "n = 5" | "n = 6"
    by linarith
  then show ?thesis
  proof cases
    case 1
    then show ?thesis by (simp add: new_events_def)
  next
    case 2
    then show ?thesis
      by (auto simp: upload_file_steps_def prim_defs new_events_def in_names_put in_names_remove
          split: option.splits if_splits)
  next
    case 3
    then show ?thesis
      by (auto simp: upload_file_steps_def prim_defs new_events_def in_names_put in_names_remove
          split: option.splits if_splits)
  next
    case 4
    then show ?thesis
      by (auto simp: upload_file_steps_def prim_defs new_events_def in_names_put in_names_remove
          split: option.splits if_splits entry.splits)
  next
    case 5
    then show ?thesis
      by (auto simp: upload_file_steps_def prim_defs new_events_def in_names_put in_names_remove
          split: option.splits if_splits entry.splits)
  next
    case 6
    then show ?thesis
      by (auto simp: upload_file_steps_def prim_defs new_events_def in_names_put in_names_remove
          split: option.splits if_splits entry.splits dump_outcome.splits)
  next
    case 7
    then show ?thesis
      by (auto simp: upload_file_steps_def prim_defs new_events_def in_names_put in_names_remove
          split: option.splits if_splits entry.splits dump_outcome.splits)
  qed
qed

lemma upload_file_reached:
  assumes "s \<in> set (reach (upload_file_steps env name) w)"
  shows "(OsRename (InputDir, stored_name name) (ArchiveDir, stored_name name) \<in> set (new_events w s)
          \<or> stored_name name \<notin> set (names (archive_dir w))
            \<and> stored_name name \<in> set (names (archive_dir s)))
         \<longrightarrow> (\<exists>l. upload_fp s = Content l \<and> stored_name name \<in> set l)"
proof -
  from reach_take[OF assms] obtain n where
    n: "n \<le> length (upload_file_steps env name)"
    and s: "s = snd (run_steps (take n (upload_file_steps env name)) w)"
    by blast
  from n have "n \<le> 6" by (simp add: upload_file_steps_def Let_def)
  from upload_file_stage[OF this, of name w env] s show ?thesis by simp
qed

subsection \<open>C1: a failed transfer\<close>

text \<open>
  Claim C1, as the code has it. Neither loop catches an exception. When the transfer of
  one item fails in an iteration, after the items before it were processed, the loop
  ends with that error in the state the failing call left: the items after it are not
  processed and no further iteration runs. The failing item is left unrecorded and
  unarchived: the Upload Ledger, its file and the archive directory are as they were
  before the item and the file is still in the input directory under its space-free
  name; the Download Ledger and its file are as they were before the key and the key
  is not in the ledger.
\<close>

theorem transfer_failure_ends_loop:
  "(running w \<and> \<not> sigterm env \<and> check_input_files w = pre @ x # post
      \<and> upload_files env pre w = (None, w1) \<and> upload_file env x w1 = (Some TransferError, w2)
    \<longrightarrow> manage_input (env # envs) w = (Crashed TransferError, w2)
      \<and> upload_history w2 = upload_history w1 \<and> upload_fp w2 = upload_fp w1
      \<and> archive_dir w2 = archive_dir w1 \<and> stored_name x \<in> set (check_input_files w2))
   \<and> (running w \<and> \<not> sigterm env \<and> \<not> list_fails env \<and> download_bucket w = pre' @ k # post'
      \<and> run_steps (map (download_if_new env) pre') (emit S3ListObjects w) = (None, v1)
      \<and> download_if_new env k v1 = (Some TransferError, v2)
    \<longrightarrow> manage_output (env # envs) w = (Crashed TransferError, v2)
      \<and> download_history v2 = download_history v1 \<and> download_fp v2 = download_fp v1
      \<and> k \<notin> set (download_history v2))"
proof (intro conjI impI)
  assume a: "running w \<and> \<not> sigterm env \<and> check_input_files w = pre @ x # post
      \<and> upload_files env pre w = (None, w1) \<and> upload_file env x w1 = (Some TransferError, w2)"
  then have p: "run_steps (map (upload_file env) pre) w = (None, w1)"
    and f: "upload_file env x w1 = (Some TransferError, w2)"
    by (simp_all add: upload_files_def)
  have "run_steps (map (upload_file env) pre @ upload_file env x # map (upload_file env) post) w
      = (Some TransferError, w2)"
    using p f by (rule run_steps_stops)
  then have "input_iteration env w = (Some TransferError, w2)"
    using a by (simp add: input_iteration_def upload_files_def)
  with a show "manage_input (env # envs) w = (Crashed TransferError, w2)"
    by (simp add: deliver_def)
  from upload_file_transfer_error[OF f]
  show "upload_history w2 = upload_history w1" "upload_fp w2 = upload_fp w1"
    "archive_dir w2 = archive_dir w1" "stored_name x \<in> set (check_input_files w2)"
    by (simp_all add: check_input_files_def)
next
  assume a: "running w \<and> \<not> sigterm env \<and> \<not> list_fails env \<and> download_bucket w = pre' @ k # post'
      \<and> run_steps (map (download_if_new env) pre') (emit S3ListObjects w) = (None, v1)
      \<and> download_if_new env k v1 = (Some TransferError, v2)"
  then have p: "run_steps (map (download_if_new env) pre') (emit S3ListObjects w) = (None, v1)"
    and f: "download_if_new env k v1 = (Some TransferError, v2)"
    by simp_all
  have "run_steps (map (download_if_new env) pre' @ download_if_new env k
        # map (download_if_new env) post') (emit S3ListObjects w) = (Some TransferError, v2)"
    using p f by (rule run_steps_stops)
  then have "check_for_downloads env w = (Some TransferError, v2)"
    using a by (simp add: check_for_downloads_def list_s3_files_def list_objects_def Let_def)
  with a show "manage_output (env # envs) w = (Crashed TransferError, v2)"
    by (simp add: deliver_def)
  from download_if_new_transfer_error[OF f]
  show "download_history v2 = download_history v1" "download_fp v2 = download_fp v1"
    "k \<notin> set (download_history v2)"
    by blast+
qed

theorem transfer_failure_ends_loop_witness:
  "manage_input [env_upload_a_fails, env_ok] w_two_files = (Crashed TransferError, w_two_files_failed)
   \<and> upload_history w_two_files_failed = upload_history w_two_files
   \<and> ''a'' \<in> set (check_input_files w_two_files_failed)
   \<and> manage_output [env_download_a_fails, env_ok] w_scenario2 = (Crashed TransferError, w_scenario2_failed)
   \<and> ''a.txt'' \<notin> set (download_history w_scenario2_failed)"
proof -
  have h1: "running w_two_files" "\<not> sigterm env_upload_a_fails"
    "check_input_files w_two_files = [] @ ''a'' # [''b'']"
    "upload_files env_upload_a_fails [] w_two_files = (None, w_two_files)"
    by (simp_all add: w_two_files_def env_upload_a_fails_def world_defs check_input_files_def
        names_def upload_files_def)
  have h2: "running w_scenario2" "\<not> sigterm env_download_a_fails" "\<not> list_fails env_download_a_fails"
    "download_bucket w_scenario2 = [] @ ''a.txt'' # [''b.txt'']"
    "run_steps (map (download_if_new env_download_a_fails) []) (emit S3ListObjects w_scenario2)
       = (None, emit S3ListObjects w_scenario2)"
    by (simp_all add: w_scenario2_def env_download_a_fails_def world_defs)
  have n: "stored_name ''a'' = ''a''" by (simp add: stored_name_def)
  note up = transfer_failure_ends_loop[of w_two_files env_upload_a_fails "[]" "''a''" "[''b'']"
      w_two_files w_two_files_failed "[env_ok]" "[]" "''a.txt''" "[''b.txt'']"
      "emit S3ListObjects w_two_files" w_two_files_failed, unfolded n, THEN conjunct1]
  note down = transfer_failure_ends_loop[of w_scenario2 env_download_a_fails "[]" "''a''" "[''b'']"
      w_two_files w_two_files_failed "[env_ok]" "[]" "''a.txt''" "[''b.txt'']"
      "emit S3ListObjects w_scenario2" w_scenario2_failed, THEN conjunct2]
  from up h1 upload_a_fails have
    "manage_input [env_upload_a_fails, env_ok] w_two_files = (Crashed TransferError, w_two_files_failed)
     \<and> upload_history w_two_files_failed = upload_history w_two_files
     \<and> ''a'' \<in> set (check_input_files w_two_files_failed)"
    by blast
  moreover from down h2 download_a_fails have
    "manage_output [env_download_a_fails, env_ok] w_scenario2 = (Crashed TransferError, w_scenario2_failed)
     \<and> ''a.txt'' \<notin> set (download_history w_scenario2_failed)"
    by blast
  ultimately show ?thesis by blast
qed

text \<open>
  The claim as stated fails: with two files in the input directory and a failing upload
  of the first, the Upload Loop ends with the error although its flag is still set, and
  the second file is never uploaded; likewise for two listed keys and a failing download
  of the first.
\<close>

theorem transfer_failure_counterexample:
  "fst (manage_input [env_upload_a_fails, env_ok] w_two_files) = Crashed TransferError
   \<and> running (snd (manage_input [env_upload_a_fails, env_ok] w_two_files))
   \<and> S3Upload ''b'' ''b'' \<notin> set (events (snd (manage_input [env_upload_a_fails, env_ok] w_two_files)))
   \<and> fst (manage_output [env_download_a_fails, env_ok] w_scenario2) = Crashed TransferError
   \<and> S3Download ''b.txt'' \<notin> set (events (snd (manage_output [env_download_a_fails, env_ok] w_scenario2)))"
  by (simp add: env_upload_a_fails_def env_download_a_fails_def w_two_files_def w_scenario2_def eval_defs)

subsection \<open>C2: recording comes before archiving\<close>

text \<open>
  Claim C2. Among the states between the statements of \<^verbatim>\<open>_upload_file\<close>, every state
  reached after the move into the archive directory was called has the name in the
  ledger file; and when no entry of that name was in the archive directory before, so
  that an archived entry of that name is the file being uploaded, there is no state in
  which the file is in the archive directory while its name is missing from the ledger
  file. The last of these states is the result of \<^verbatim>\<open>_upload_file\<close>. In the trace, the
  move into the archive directory is immediately preceded by the append of the name to
  the Upload Ledger and the write of the ledger file.
\<close>

theorem upload_file_records_before_archiving:
  "(\<forall>s \<in> set (reach (upload_file_steps env name) w).
       OsRename (InputDir, stored_name name) (ArchiveDir, stored_name name) \<in> set (new_events w s) \<longrightarrow>
         (\<exists>l. upload_fp s = Content l \<and> stored_name name \<in> set l))
   \<and> (stored_name name \<notin> set (names (archive_dir w)) \<longrightarrow>
       (\<forall>s \<in> set (reach (upload_file_steps env name) w).
          stored_name name \<in> set (names (archive_dir s)) \<longrightarrow>
            (\<exists>l. upload_fp s = Content l \<and> stored_name name \<in> set l)))
   \<and> last (reach (upload_file_steps env name) w) = snd (upload_file env name w)
   \<and> (OsRename (InputDir, stored_name name) (ArchiveDir, stored_name name)
         \<in> set (new_events w (snd (upload_file env name w))) \<longrightarrow>
       (\<exists>pre. new_events w (snd (upload_file env name w)) =
          pre @ [HistoryAppend UploadLedger (stored_name name), JsonDump UploadLedger,
                 OsRename (InputDir, stored_name name) (ArchiveDir, stored_name name)]))"
proof (intro conjI)
  show "\<forall>s \<in> set (reach (upload_file_steps env name) w).
       OsRename (InputDir, stored_name name) (ArchiveDir, stored_name name) \<in> set (new_events w s) \<longrightarrow>
         (\<exists>l. upload_fp s = Content l \<and> stored_name name \<in> set l)"
    using upload_file_reached[of _ env name w] by blast
  show "stored_name name \<notin> set (names (archive_dir w)) \<longrightarrow>
       (\<forall>s \<in> set (reach (upload_file_steps env name) w).
          stored_name name \<in> set (names (archive_dir s)) \<longrightarrow>
            (\<exists>l. upload_fp s = Content l \<and> stored_name name \<in> set l))"
    using upload_file_reached[of _ env name w] by blast
  show "last (reach (upload_file_steps env name) w) = snd (upload_file env name w)"
    by (simp add: last_reach upload_file_def)
  show "OsRename (InputDir, stored_name name) (ArchiveDir, stored_name name)
         \<in> set (new_events w (snd (upload_file env name w))) \<longrightarrow>
       (\<exists>pre. new_events w (snd (upload_file env name w)) =
          pre @ [HistoryAppend UploadLedger (stored_name name), JsonDump UploadLedger,
                 OsRename (InputDir, stored_name name) (ArchiveDir, stored_name name)])"
    by (auto simp: upload_defs new_events_def
        split: option.splits if_splits entry.splits dump_outcome.splits)
qed

theorem upload_file_records_before_archiving_witness:
  "''report_final.csv'' \<notin> set (names (archive_dir w_scenario1))
   \<and> last (reach (upload_file_steps env_ok ''report final.csv'') w_scenario1) = w_scenario1_after
   \<and> ''report_final.csv'' \<in> set (names (archive_dir w_scenario1_after))
   \<and> OsRename (InputDir, ''report_final.csv'') (ArchiveDir, ''report_final.csv'')
        \<in> set (new_events w_scenario1 w_scenario1_after)
   \<and> (\<exists>l. upload_fp w_scenario1_after = Content l \<and> ''report_final.csv'' \<in> set l)"
proof -
  have a: "''report_final.csv'' \<notin> set (names (archive_dir w_scenario1))"
    by (simp add: w_scenario1_def world_defs names_def)
  have n: "stored_name ''report final.csv'' = ''report_final.csv''"
    by (simp add: stored_name_def replace_spaces_def)
  note t = upload_file_records_before_archiving[where name = "''report final.csv''"
      and w = w_scenario1 and env = env_ok, unfolded n scenario1_run snd_conv]
  from t have l: "last (reach (upload_file_steps env_ok ''report final.csv'') w_scenario1) = w_scenario1_after"
    by simp
  have "last (reach (upload_file_steps env_ok ''report final.csv'') w_scenario1)
          \<in> set (reach (upload_file_steps env_ok ''report final.csv'') w_scenario1)"
    by (rule last_in_set) simp
  with l have m: "w_scenario1_after \<in> set (reach (upload_file_steps env_ok ''report final.csv'') w_scenario1)"
    by simp
  have ar: "''report_final.csv'' \<in> set (names (archive_dir w_scenario1_after))"
    by (simp add: w_scenario1_after_def names_def)
  have ev: "OsRename (InputDir, ''report_final.csv'') (ArchiveDir, ''report_final.csv'')
        \<in> set (new_events w_scenario1 w_scenario1_after)"
    by (simp add: w_scenario1_after_def w_scenario1_def world_defs new_events_def)
  from t a m ar ev l show ?thesis by blast
qed

subsection \<open>C3: what the ledgers prevent\<close>

text \<open>
  Claim C3, as the code has it. A key that is in the Download Ledger file at startup is
  never downloaded by the Download Loop, however many iterations it runs. The Upload
  Loop does not consult the Upload Ledger: whether \<^verbatim>\<open>_upload_file\<close> uploads, and every
  call it makes, is the same for any history in memory. What keeps an uploaded file
  from being uploaded again is its move into the archive directory: after a successful
  \<^verbatim>\<open>_upload_file\<close> the file has been uploaded and neither its original name nor its
  space-free name is found by the next scan of the input directory.
\<close>

theorem ledger_skips_downloads_only:
  "(init kw w = (None, w0) \<and> download_fp w = Content l \<and> k \<in> set l \<longrightarrow>
      S3Download k \<notin> set (new_events w0 (snd (manage_output envs w0))))
   \<and> fst (upload_file env name (w\<lparr>upload_history := h\<rparr>)) = fst (upload_file env name w)
   \<and> new_events (w\<lparr>upload_history := h\<rparr>) (snd (upload_file env name (w\<lparr>upload_history := h\<rparr>)))
       = new_events w (snd (upload_file env name w))
   \<and> (upload_file env name w = (None, w') \<longrightarrow>
        S3Upload (stored_name name) (stored_name name) \<in> set (new_events w w')
      \<and> name \<notin> set (check_input_files w')
      \<and> stored_name name \<notin> set (check_input_files w'))"
proof (intro conjI impI)
  assume a: "init kw w = (None, w0) \<and> download_fp w = Content l \<and> k \<in> set l"
  then have h: "k \<in> set (download_history w0)"
    by (auto simp: init_def create_if_missing_def json_load_def Let_def
        split: history_file.splits sum.splits)
  obtain r v where m: "manage_output envs w0 = (r, v)" by (cases "manage_output envs w0")
  from manage_output_any[OF m] h
  show "S3Download k \<notin> set (new_events w0 (snd (manage_output envs w0)))"
    using m by auto
next
  show "fst (upload_file env name (w\<lparr>upload_history := h\<rparr>)) = fst (upload_file env name w)"
    "new_events (w\<lparr>upload_history := h\<rparr>) (snd (upload_file env name (w\<lparr>upload_history := h\<rparr>)))
       = new_events w (snd (upload_file env name w))"
    using upload_file_ignores_history[of env name h w] by simp_all
next
  assume a: "upload_file env name w = (None, w')"
  from upload_file_success[OF a]
  show "S3Upload (stored_name name) (stored_name name) \<in> set (new_events w w')"
    "name \<notin> set (check_input_files w')" "stored_name name \<notin> set (check_input_files w')"
    by (simp_all add: new_events_def check_input_files_def)
qed

theorem ledger_skips_downloads_only_witness:
  "init None (fresh\<lparr>download_bucket := [''a.txt'', ''b.txt''], download_fp := Content [''a.txt'']\<rparr>)
     = (None, w_scenario3)
   \<and> S3Download ''a.txt'' \<notin> set (new_events w_scenario3 (snd (manage_output [env_ok, env_ok] w_scenario3)))
   \<and> S3Upload ''report_final.csv'' ''report_final.csv'' \<in> set (new_events w_scenario1 w_scenario1_after)
   \<and> ''report final.csv'' \<notin> set (check_input_files w_scenario1_after)"
proof -
  have i: "init None (fresh\<lparr>download_bucket := [''a.txt'', ''b.txt''], download_fp := Content [''a.txt'']\<rparr>)
     = (None, w_scenario3)"
    by (simp add: w_scenario3_def world_defs)
  have h: "download_fp (fresh\<lparr>download_bucket := [''a.txt'', ''b.txt''], download_fp := Content [''a.txt'']\<rparr>)
             = Content [''a.txt''] \<and> ''a.txt'' \<in> set [''a.txt'']"
    by simp
  have n: "stored_name ''report final.csv'' = ''report_final.csv''"
    by (simp add: stored_name_def replace_spaces_def)
  note t = ledger_skips_downloads_only[of None
      "fresh\<lparr>download_bucket := [''a.txt'', ''b.txt''], download_fp := Content [''a.txt'']\<rparr>"
      w_scenario3 "[''a.txt'']" "''a.txt''" "[env_ok, env_ok]" env_ok "''report final.csv''" "[]"
      w_scenario1_after]
  from t i h have d: "S3Download ''a.txt'' \<notin> set (new_events w_scenario3 (snd (manage_output [env_ok, env_ok] w_scenario3)))"
    by blast
  note t2 = ledger_skips_downloads_only[of None w_scenario1 w_scenario1 "[]" "''a.txt''" "[]" env_ok
      "''report final.csv''" "[]" w_scenario1_after, unfolded n]
  from t2 scenario1_run have u: "S3Upload ''report_final.csv'' ''report_final.csv'' \<in> set (new_events w_scenario1 w_scenario1_after)
   \<and> ''report final.csv'' \<notin> set (check_input_files w_scenario1_after)"
    by blast
  from i d u show ?thesis by blast
qed

text \<open>
  The claim as stated fails on the upload side: after one iteration has uploaded,
  recorded and archived \<^verbatim>\<open>a\<close>, a new file named \<^verbatim>\<open>a\<close> arrives and the client is started
  again. The loaded Upload Ledger holds \<^verbatim>\<open>a\<close>, and the Upload Loop uploads \<^verbatim>\<open>a\<close> again.
\<close>

theorem recorded_file_uploaded_again_counterexample:
  "''a'' \<in> set (upload_history w_second_a)
   \<and> S3Upload ''a'' ''a'' \<in> set (new_events w_second_a (snd (manage_input [env_ok] w_second_a)))
   \<and> upload_bucket (snd (manage_input [env_ok] w_second_a)) = [''a'', ''a'']"
  by (simp add: second_a_run second_a_history new_events_def del: manage_input.simps)

subsection \<open>C4: a failed notification\<close>

text \<open>
  Claim C4, as the code has it. \<^verbatim>\<open>_download_file\<close> calls \<^verbatim>\<open>playsound\<close> between the
  download and the append, without catching anything. When the playback fails after a
  successful download, \<^verbatim>\<open>_download_file\<close> ends with that exception: the key is in the
  output directory, but it has not been appended to the Download Ledger and the ledger
  file has not been written; the ledger in memory and its file are exactly as before.
  In the Download Loop the exception ends the loop.
\<close>

theorem playsound_failure_skips_recording:
  "(playsound_fails env \<and> \<not> download_fails env k \<longrightarrow>
      fst (download_file env k w) = Some PlaysoundException
    \<and> new_events w (snd (download_file env k w)) = [S3Download k, Playsound]
    \<and> k \<in> set (names (output_dir (snd (download_file env k w))))
    \<and> download_history (snd (download_file env k w)) = download_history w
    \<and> download_fp (snd (download_file env k w)) = download_fp w)
   \<and> (playsound_fails env \<and> \<not> download_fails env k \<and> running w \<and> \<not> sigterm env
        \<and> \<not> list_fails env \<and> download_bucket w = k # rest \<and> k \<notin> set (download_history w) \<longrightarrow>
      fst (manage_output (env # envs) w) = Crashed PlaysoundException)"
proof (intro conjI impI)
  assume a: "playsound_fails env \<and> \<not> download_fails env k"
  then show "fst (download_file env k w) = Some PlaysoundException"
    "new_events w (snd (download_file env k w)) = [S3Download k, Playsound]"
    "k \<in> set (names (output_dir (snd (download_file env k w))))"
    "download_history (snd (download_file env k w)) = download_history w"
    "download_fp (snd (download_file env k w)) = download_fp w"
    by (simp_all add: download_defs new_events_def in_names_put)
next
  assume a: "playsound_fails env \<and> \<not> download_fails env k \<and> running w \<and> \<not> sigterm env
        \<and> \<not> list_fails env \<and> download_bucket w = k # rest \<and> k \<notin> set (download_history w)"
  then have "fst (download_if_new env k (emit S3ListObjects w)) = Some PlaysoundException"
    by (simp add: download_defs)
  then obtain v where "download_if_new env k (emit S3ListObjects w) = (Some PlaysoundException, v)"
    by (cases "download_if_new env k (emit S3ListObjects w)") simp
  then have "check_for_downloads env w = (Some PlaysoundException, v)"
    using a by (simp add: check_for_downloads_def list_s3_files_def list_objects_def Let_def)
  with a show "fst (manage_output (env # envs) w) = Crashed PlaysoundException"
    by (simp add: deliver_def)
qed

theorem playsound_failure_skips_recording_witness:
  "fst (download_file env_mute ''a.txt'' w_scenario2) = Some PlaysoundException
   \<and> download_history (snd (download_file env_mute ''a.txt'' w_scenario2)) = []
   \<and> fst (manage_output [env_mute, env_ok] w_scenario2) = Crashed PlaysoundException"
proof -
  have h: "playsound_fails env_mute" "\<not> download_fails env_mute ''a.txt''" "running w_scenario2"
    "\<not> sigterm env_mute" "\<not> list_fails env_mute" "download_bucket w_scenario2 = ''a.txt'' # [''b.txt'']"
    "''a.txt'' \<notin> set (download_history w_scenario2)" "download_history w_scenario2 = []"
    by (simp_all add: env_mute_def w_scenario2_def world_defs)
  from playsound_failure_skips_recording[of env_mute "''a.txt''" w_scenario2 "[''b.txt'']" "[env_ok]"] h
  show ?thesis by metis
qed

text \<open>
  The claim as stated fails: with a failing playback the key \<^verbatim>\<open>a.txt\<close> is downloaded
  but is not appended to the ledger, and the ledger file still holds the empty list.
\<close>

theorem playsound_failure_counterexample:
  "fst (download_file env_mute ''a.txt'' w_scenario2) = Some PlaysoundException
   \<and> ''a.txt'' \<in> set (names (output_dir (snd (download_file env_mute ''a.txt'' w_scenario2))))
   \<and> ''a.txt'' \<notin> set (download_history (snd (download_file env_mute ''a.txt'' w_scenario2)))
   \<and> download_fp (snd (download_file env_mute ''a.txt'' w_scenario2)) = Content []"
  by (simp add: env_mute_def w_scenario2_def eval_defs)

subsection \<open>C5: the running flag and the sleep\<close>




subsection \<open>C6: spaces in file names\<close>

text \<open>
  Claim C6. When the name of an input file contains a space, the first call
  \<^verbatim>\<open>_upload_file\<close> makes is the rename to the name with every space replaced by an
  underscore, so it comes before any transfer; when that rename succeeds the entry is in
  the input directory under the new name and nothing has been uploaded yet. A regular
  file whose rename, \<^verbatim>\<open>os.stat\<close> and transfer do not fail is uploaded, under the key
  that is its name with the spaces replaced. Every key \<^verbatim>\<open>_upload_file\<close> uploads under
  is the replaced name and contains no space. For a name without spaces the
  replacement returns the name unchanged and no rename inside the input directory is
  made; replacing twice is replacing once.
\<close>

theorem upload_file_renames_spaces:
  "(CHR '' '' \<in> set name \<longrightarrow>
      (\<exists>evs. new_events w (snd (upload_file env name w)) =
          OsRename (InputDir, name) (InputDir, replace_spaces name) # evs))
   \<and> (CHR '' '' \<in> set name \<and> map_of (input_dir w) name = Some e
        \<and> \<not> rename_fails env (InputDir, name) (InputDir, replace_spaces name) \<longrightarrow>
        input_dir (reach (upload_file_steps env name) w ! 1) =
          dir_put (replace_spaces name) e (dir_remove name (input_dir w))
      \<and> upload_bucket (reach (upload_file_steps env name) w ! 1) = upload_bucket w)
   \<and> (map_of (input_dir w) name = Some RegularFile
        \<and> (CHR '' '' \<in> set name \<longrightarrow>
             \<not> rename_fails env (InputDir, name) (InputDir, replace_spaces name))
        \<and> \<not> stat_fails env (InputDir, replace_spaces name)
        \<and> \<not> upload_fails env (replace_spaces name) \<longrightarrow>
        S3Upload (replace_spaces name) (replace_spaces name)
          \<in> set (new_events w (snd (upload_file env name w)))
      \<and> upload_bucket (snd (upload_file env name w)) = upload_bucket w @ [replace_spaces name])
   \<and> (\<forall>f k. S3Upload f k \<in> set (new_events w (snd (upload_file env name w))) \<longrightarrow>
          k = replace_spaces name \<and> CHR '' '' \<notin> set k)
   \<and> (CHR '' '' \<notin> set name \<longrightarrow> replace_spaces name = name \<and>
        (\<forall>dst. OsRename (InputDir, name) (InputDir, dst)
                  \<notin> set (new_events w (snd (upload_file env name w)))))
   \<and> replace_spaces (replace_spaces name) = replace_spaces name"
proof (intro conjI)
  show "CHR '' '' \<in> set name \<longrightarrow>
      (\<exists>evs. new_events w (snd (upload_file env name w)) =
          OsRename (InputDir, name) (InputDir, replace_spaces name) # evs)"
    by (auto simp: upload_defs new_events_def stored_name_def
        split: option.splits if_splits entry.splits dump_outcome.splits)
  show "CHR '' '' \<in> set name \<and> map_of (input_dir w) name = Some e
        \<and> \<not> rename_fails env (InputDir, name) (InputDir, replace_spaces name) \<longrightarrow>
        input_dir (reach (upload_file_steps env name) w ! 1) =
          dir_put (replace_spaces name) e (dir_remove name (input_dir w))
      \<and> upload_bucket (reach (upload_file_steps env name) w ! 1) = upload_bucket w"
    by (simp add: upload_file_steps_def os_rename_def emit_def Let_def)
  show "map_of (input_dir w) name = Some RegularFile
        \<and> (CHR '' '' \<in> set name \<longrightarrow>
             \<not> rename_fails env (InputDir, name) (InputDir, replace_spaces name))
        \<and> \<not> stat_fails env (InputDir, replace_spaces name)
        \<and> \<not> upload_fails env (replace_spaces name) \<longrightarrow>
        S3Upload (replace_spaces name) (replace_spaces name)
          \<in> set (new_events w (snd (upload_file env name w)))
      \<and> upload_bucket (snd (upload_file env name w)) = upload_bucket w @ [replace_spaces name]"
    using upload_file_uploads[of w name env] by blast
  show "\<forall>f k. S3Upload f k \<in> set (new_events w (snd (upload_file env name w))) \<longrightarrow>
          k = replace_spaces name \<and> CHR '' '' \<notin> set k"
    by (auto simp: upload_defs new_events_def stored_name_def replace_spaces_id replace_spaces_no_space
        split: option.splits if_splits entry.splits dump_outcome.splits)
  show "CHR '' '' \<notin> set name \<longrightarrow> replace_spaces name = name \<and>
        (\<forall>dst. OsRename (InputDir, name) (InputDir, dst)
                  \<notin> set (new_events w (snd (upload_file env name w))))"
    by (auto simp: upload_defs new_events_def stored_name_def replace_spaces_id
        split: option.splits if_splits entry.splits dump_outcome.splits)
  show "replace_spaces (replace_spaces name) = replace_spaces name"
    by (simp add: replace_spaces_id replace_spaces_no_space)
qed

theorem upload_file_renames_spaces_witness:
  "CHR '' '' \<in> set ''report final.csv''
   \<and> replace_spaces ''report final.csv'' = ''report_final.csv''
   \<and> (\<exists>evs. new_events w_scenario1 (snd (upload_file env_ok ''report final.csv'' w_scenario1)) =
          OsRename (InputDir, ''report final.csv'') (InputDir, ''report_final.csv'') # evs)
   \<and> input_dir (reach (upload_file_steps env_ok ''report final.csv'') w_scenario1 ! 1) =
        [(''report_final.csv'', RegularFile)]
   \<and> S3Upload ''report_final.csv'' ''report_final.csv''
        \<in> set (new_events w_scenario1 (snd (upload_file env_ok ''report final.csv'' w_scenario1)))
   \<and> upload_bucket (snd (upload_file env_ok ''report final.csv'' w_scenario1)) = [''report_final.csv'']
   \<and> replace_spaces ''report_final.csv'' = ''report_final.csv''"
proof -
  have h: "CHR '' '' \<in> set ''report final.csv''"
    "replace_spaces ''report final.csv'' = ''report_final.csv''"
    "map_of (input_dir w_scenario1) ''report final.csv'' = Some RegularFile"
    "\<not> rename_fails env_ok (InputDir, ''report final.csv'') (InputDir, ''report_final.csv'')"
    "\<not> stat_fails env_ok (InputDir, ''report_final.csv'')"
    "\<not> upload_fails env_ok ''report_final.csv''"
    "upload_bucket w_scenario1 = []"
    "dir_put ''report_final.csv'' RegularFile (dir_remove ''report final.csv'' (input_dir w_scenario1))
       = [(''report_final.csv'', RegularFile)]"
    "CHR '' '' \<notin> set ''report_final.csv''"
    by (simp_all add: replace_spaces_def w_scenario1_def world_defs dir_put_def dir_remove_def)
  note t = upload_file_renames_spaces[where name = "''report final.csv''" and w = w_scenario1
      and env = env_ok and e = RegularFile, unfolded h(2)]
  note t2 = upload_file_renames_spaces[where name = "''report_final.csv''" and w = w_scenario1
      and env = env_ok and e = RegularFile]
  from t2 h(9) have i: "replace_spaces ''report_final.csv'' = ''report_final.csv''" by blast
  from t h i show ?thesis by simp
qed

subsection \<open>C7: the name in the archive\<close>

text \<open>
  Claim C7, as the code has it. \<^verbatim>\<open>_upload_file\<close> reassigns \<^verbatim>\<open>file\<close> to the renamed path,
  so a successfully uploaded file is moved into the archive directory under the name it
  was uploaded under, the name with every space replaced by an underscore: that move is
  the last call, and the archive gains exactly that name. It is the name the file was
  discovered under exactly when that name has no space.
\<close>

theorem upload_file_archives_under_uploaded_name:
  "upload_file env name w = (None, w') \<longrightarrow>
     set (names (archive_dir w')) = insert (replace_spaces name) (set (names (archive_dir w)))
   \<and> last (events w') = OsRename (InputDir, replace_spaces name) (ArchiveDir, replace_spaces name)
   \<and> S3Upload (replace_spaces name) (replace_spaces name) \<in> set (new_events w w')
   \<and> (replace_spaces name = name \<longleftrightarrow> CHR '' '' \<notin> set name)"
proof
  assume a: "upload_file env name w = (None, w')"
  from upload_file_success[OF a] replace_spaces_eq_iff[of name]
  show "set (names (archive_dir w')) = insert (replace_spaces name) (set (names (archive_dir w)))
   \<and> last (events w') = OsRename (InputDir, replace_spaces name) (ArchiveDir, replace_spaces name)
   \<and> S3Upload (replace_spaces name) (replace_spaces name) \<in> set (new_events w w')
   \<and> (replace_spaces name = name \<longleftrightarrow> CHR '' '' \<notin> set name)"
    by (simp add: stored_name_eq new_events_def)
qed

theorem upload_file_archives_under_uploaded_name_witness:
  "upload_file env_ok ''report final.csv'' w_scenario1 = (None, w_scenario1_after)
   \<and> set (names (archive_dir w_scenario1_after)) = {''report_final.csv''}
   \<and> replace_spaces ''report final.csv'' \<noteq> ''report final.csv''"
proof -
  have h: "replace_spaces ''report final.csv'' = ''report_final.csv''"
    "set (names (archive_dir w_scenario1)) = {}" "CHR '' '' \<in> set ''report final.csv''"
    by (simp_all add: replace_spaces_def w_scenario1_def world_defs names_def)
  from upload_file_archives_under_uploaded_name[of env_ok "''report final.csv''" w_scenario1 w_scenario1_after]
    scenario1_run h
  show ?thesis by simp
qed

text \<open>
  The claim as stated fails: \<^verbatim>\<open>report final.csv\<close> is uploaded successfully, and the
  archive directory then holds \<^verbatim>\<open>report_final.csv\<close> and no entry under the original name.
\<close>

theorem upload_file_original_name_counterexample:
  "fst (upload_file env_ok ''report final.csv'' w_scenario1) = None
   \<and> ''report final.csv'' \<notin> set (names (archive_dir (snd (upload_file env_ok ''report final.csv'' w_scenario1))))
   \<and> ''report_final.csv'' \<in> set (names (archive_dir (snd (upload_file env_ok ''report final.csv'' w_scenario1))))"
  by (simp add: scenario1_run w_scenario1_after_def names_def)

subsection \<open>C8: one download iteration\<close>

text \<open>
  Claim C8. In one iteration of the Download Loop (\<^verbatim>\<open>_check_for_downloads\<close>) no key
  that is already in the Download Ledger is downloaded, whatever the outcome of the
  iteration. When the iteration completes, the keys downloaded are exactly the listed
  keys that were absent from the ledger; each of them is in the output directory, in
  the ledger in memory and in the ledger file. In the trace, every append of a key to
  the ledger comes after the download of that key.
\<close>

theorem check_for_downloads_only_new_keys:
  assumes "check_for_downloads env w = (r, w')"
  shows "(\<forall>k \<in> set (download_history w). S3Download k \<notin> set (new_events w w'))
       \<and> (r = None \<longrightarrow>
            {k. S3Download k \<in> set (new_events w w')} = set (download_bucket w) - set (download_history w)
          \<and> (\<forall>k \<in> set (download_bucket w) - set (download_history w).
                k \<in> set (names (output_dir w')) \<and> k \<in> set (download_history w')
              \<and> download_fp w' = Content (download_history w')))
       \<and> (\<forall>pre k post. new_events w w' = pre @ HistoryAppend DownloadLedger k # post \<longrightarrow>
             S3Download k \<in> set pre)"
proof (intro conjI impI ballI)
  fix k assume "k \<in> set (download_history w)"
  with check_for_downloads_any(4)[OF assms] show "S3Download k \<notin> set (new_events w w')" by blast
next
  assume "r = None"
  with assms have ok: "check_for_downloads env w = (None, w')" by simp
  from check_for_downloads_any(4)[OF assms] check_for_downloads_success(2)[OF ok]
  show "{k. S3Download k \<in> set (new_events w w')} = set (download_bucket w) - set (download_history w)"
    by blast
next
  fix k assume "r = None" and k: "k \<in> set (download_bucket w) - set (download_history w)"
  with assms have ok: "check_for_downloads env w = (None, w')" by simp
  from check_for_downloads_success[OF ok] k
  show "k \<in> set (names (output_dir w'))" "k \<in> set (download_history w')"
    "download_fp w' = Content (download_history w')" by auto
next
  from check_for_downloads_any(6)[OF assms]
  show "\<forall>pre k post. new_events w w' = pre @ HistoryAppend DownloadLedger k # post \<longrightarrow>
             S3Download k \<in> set pre"
    unfolding download_first_def .
qed

theorem check_for_downloads_only_new_keys_witness:
  "check_for_downloads env_ok w_scenario3 = (None, w_scenario3_after)
   \<and> S3Download ''a.txt'' \<notin> set (new_events w_scenario3 w_scenario3_after)
   \<and> ''b.txt'' \<in> set (names (output_dir w_scenario3_after))
   \<and> ''b.txt'' \<in> set (download_history w_scenario3_after)"
proof -
  have h: "''a.txt'' \<in> set (download_history w_scenario3)"
    "''b.txt'' \<in> set (download_bucket w_scenario3) - set (download_history w_scenario3)"
    by (simp_all add: w_scenario3_def world_defs)
  from check_for_downloads_only_new_keys[OF scenario3_run] h scenario3_run
  show ?thesis by blast
qed

subsection \<open>C9: the ledgers as lists\<close>

text \<open>
  Claim C9, as the code has it. Within a run the history in memory of each ledger
  only grows by appending, over any number of iterations of its loop. While every
  write of a ledger file succeeds, the file holds exactly the history in memory after
  any number of iterations, so that it grows by appending too, and the constructor
  then reloads exactly that history: nothing is removed across a restart. Over any
  number of iterations the Download Ledger stays free of duplicates when it was so at
  the start. The Upload Ledger is appended to on every successful upload without a
  membership test, so a name uploaded again is recorded again.
\<close>

theorem ledgers_only_grow:
  "(manage_output envs w = (r, w') \<longrightarrow>
       prefix (download_history w) (download_history w')
     \<and> (distinct (download_history w) \<longrightarrow> distinct (download_history w'))
     \<and> ((\<forall>env \<in> set envs. dump env DownloadLedger = Written)
          \<and> download_fp w = Content (download_history w) \<longrightarrow>
          download_fp w' = Content (download_history w')))
   \<and> (manage_input envs w = (r, w') \<longrightarrow>
       prefix (upload_history w) (upload_history w')
     \<and> ((\<forall>env \<in> set envs. dump env UploadLedger = Written)
          \<and> upload_fp w = Content (upload_history w) \<longrightarrow>
          upload_fp w' = Content (upload_history w')))
   \<and> (init kw w = (None, w0) \<longrightarrow>
       upload_fp w0 = Content (upload_history w0)
     \<and> download_fp w0 = Content (download_history w0)
     \<and> (upload_fp w = Content (upload_history w) \<longrightarrow> upload_history w0 = upload_history w)
     \<and> (download_fp w = Content (download_history w) \<longrightarrow> download_history w0 = download_history w))
   \<and> (upload_file env name w = (None, w') \<longrightarrow>
        upload_history w' = upload_history w @ [stored_name name])"
proof (intro conjI impI)
  assume c: "manage_output envs w = (r, w')"
  from manage_output_any[OF c] show "prefix (download_history w) (download_history w')" by simp
  { assume "distinct (download_history w)"
    with manage_output_ledger[OF c] show "distinct (download_history w')" by simp }
  { assume "(\<forall>env \<in> set envs. dump env DownloadLedger = Written)
          \<and> download_fp w = Content (download_history w)"
    with manage_output_ledger[OF c] show "download_fp w' = Content (download_history w')" by simp }
next
  assume c: "manage_input envs w = (r, w')"
  from manage_input_ledger[OF c] show "prefix (upload_history w) (upload_history w')" by simp
  { assume "(\<forall>env \<in> set envs. dump env UploadLedger = Written)
          \<and> upload_fp w = Content (upload_history w)"
    with manage_input_ledger[OF c] show "upload_fp w' = Content (upload_history w')" by simp }
next
  assume i: "init kw w = (None, w0)"
  show "upload_fp w0 = Content (upload_history w0)" by (rule init_loads(1)[OF i])
  show "download_fp w0 = Content (download_history w0)" by (rule init_loads(2)[OF i])
  { assume "upload_fp w = Content (upload_history w)"
    then show "upload_history w0 = upload_history w" by (rule init_loads(3)[OF i]) }
  { assume "download_fp w = Content (download_history w)"
    then show "download_history w0 = download_history w" by (rule init_loads(4)[OF i]) }
next
  assume "upload_file env name w = (None, w')"
  from upload_file_success[OF this] show "upload_history w' = upload_history w @ [stored_name name]"
    by simp
qed

theorem ledgers_only_grow_witness:
  "distinct (download_history w_scenario3)
   \<and> distinct (download_history (snd (manage_output [env_ok] w_scenario3)))
   \<and> prefix (download_history w_scenario3) (download_history (snd (manage_output [env_ok] w_scenario3)))
   \<and> download_fp (snd (manage_output [env_ok] w_scenario3))
       = Content (download_history (snd (manage_output [env_ok] w_scenario3)))
   \<and> upload_history w_scenario1_after = upload_history w_scenario1 @ [''report_final.csv'']"
proof -
  have h: "distinct (download_history w_scenario3)"
    "download_fp w_scenario3 = Content (download_history w_scenario3)"
    "\<forall>env \<in> set [env_ok]. dump env DownloadLedger = Written"
    by (simp_all add: w_scenario3_def world_defs)
  have n: "stored_name ''report final.csv'' = ''report_final.csv''"
    by (simp add: stored_name_def replace_spaces_def)
  have m: "manage_output [env_ok] w_scenario3
      = (fst (manage_output [env_ok] w_scenario3), snd (manage_output [env_ok] w_scenario3))"
    by (rule surjective_pairing)
  note t = ledgers_only_grow[where envs = "[env_ok]" and w = w_scenario3
      and r = "fst (manage_output [env_ok] w_scenario3)"
      and w' = "snd (manage_output [env_ok] w_scenario3)"]
  from t m h have
    "distinct (download_history (snd (manage_output [env_ok] w_scenario3)))
     \<and> prefix (download_history w_scenario3) (download_history (snd (manage_output [env_ok] w_scenario3)))
     \<and> download_fp (snd (manage_output [env_ok] w_scenario3))
         = Content (download_history (snd (manage_output [env_ok] w_scenario3)))"
    by blast
  moreover note t2 = ledgers_only_grow[where env = env_ok and name = "''report final.csv''"
      and w = w_scenario1 and w' = w_scenario1_after, unfolded n]
  from t2 scenario1_run
  have u: "upload_history w_scenario1_after = upload_history w_scenario1 @ [''report_final.csv'']"
    by blast
  ultimately show ?thesis using h(1) u by blast
qed

text \<open>
  The claim as stated fails for the Upload Ledger: after one iteration has uploaded,
  recorded and archived \<^verbatim>\<open>a\<close>, a new file named \<^verbatim>\<open>a\<close> arrives and the client is started
  again. The ledger has no duplicate before the next iteration and holds \<^verbatim>\<open>a\<close> twice
  after it, in memory and in its file.
\<close>

theorem upload_ledger_duplicate_counterexample:
  "distinct (upload_history w_second_a)
   \<and> upload_history (snd (manage_input [env_ok] w_second_a)) = [''a'', ''a'']
   \<and> upload_fp (snd (manage_input [env_ok] w_second_a)) = Content [''a'', ''a'']"
  by (simp add: second_a_run second_a_history del: manage_input.simps)

subsection \<open>C10: what the Upload Loop takes from the input directory\<close>

text \<open>
  Claim C10, as the code has it. The candidates of an iteration of the Upload Loop are
  the names of all entries of the input directory, of whatever kind, and no check
  that an entry is a regular file is made anywhere. The entries are passed to
  \<^verbatim>\<open>_upload_file\<close> in the order of the scan: an entry whose predecessors were all
  processed without an exception is passed, whatever its kind, and the trace goes on
  with the first call \<^verbatim>\<open>_upload_file\<close> makes for it. A subdirectory that is reached
  is handed to \<^verbatim>\<open>s3.upload_file\<close> like a file; this raises, and the exception ends the
  iteration, so the entries after it are not passed.
\<close>

theorem input_iteration_passes_entries_in_order:
  "set (check_input_files w) = fst ` set (input_dir w)
   \<and> (check_input_files w = pre @ x # post \<and> upload_files env pre w = (None, w1) \<longrightarrow>
        (\<exists>evs. new_events w (snd (input_iteration env w)) =
           new_events w w1 @
           (if CHR '' '' \<in> set x then OsRename (InputDir, x) (InputDir, replace_spaces x)
            else OsStat (InputDir, x)) # evs)
      \<and> (map_of (input_dir w1) x = Some Directory
           \<and> (CHR '' '' \<in> set x \<longrightarrow>
                \<not> rename_fails env (InputDir, x) (InputDir, replace_spaces x))
           \<and> \<not> stat_fails env (InputDir, stored_name x) \<longrightarrow>
           input_iteration env w = (Some IsADirectoryError, snd (upload_file env x w1))
         \<and> last (events (snd (input_iteration env w))) = S3Upload (stored_name x) (stored_name x)))"
proof (intro conjI impI)
  show "set (check_input_files w) = fst ` set (input_dir w)"
    by (simp add: check_input_files_def names_def)
next
  assume a: "check_input_files w = pre @ x # post \<and> upload_files env pre w = (None, w1)"
  then have i: "input_iteration env w = upload_files env (pre @ x # post) w"
    by (simp add: input_iteration_def)
  from a have p: "upload_files env pre w = (None, w1)" by simp
  from upload_files_reaches[OF p, of x post] i
  show "\<exists>evs. new_events w (snd (input_iteration env w)) =
           new_events w w1 @
           (if CHR '' '' \<in> set x then OsRename (InputDir, x) (InputDir, replace_spaces x)
            else OsStat (InputDir, x)) # evs"
    by simp
  assume b: "map_of (input_dir w1) x = Some Directory
           \<and> (CHR '' '' \<in> set x \<longrightarrow>
                \<not> rename_fails env (InputDir, x) (InputDir, replace_spaces x))
           \<and> \<not> stat_fails env (InputDir, stored_name x)"
  from upload_file_directory[of w1 x env] b have
    f: "fst (upload_file env x w1) = Some IsADirectoryError"
    and l: "last (events (snd (upload_file env x w1))) = S3Upload (stored_name x) (stored_name x)"
    by simp_all
  from f have u: "upload_file env x w1 = (Some IsADirectoryError, snd (upload_file env x w1))"
    by (cases "upload_file env x w1") simp
  from p have p': "run_steps (map (upload_file env) pre) w = (None, w1)"
    by (simp add: upload_files_def)
  from run_steps_stops[where xs = "map (upload_file env) pre" and s = "upload_file env x"
      and ys = "map (upload_file env) post", OF p' u] i
  show r: "input_iteration env w = (Some IsADirectoryError, snd (upload_file env x w1))"
    by (simp add: upload_files_def)
  from r l show "last (events (snd (input_iteration env w))) = S3Upload (stored_name x) (stored_name x)"
    by simp
qed

theorem input_iteration_passes_entries_in_order_witness:
  "check_input_files w_file_subdir_file = [''a''] @ ''sub'' # [''b'']
   \<and> upload_files env_ok [''a''] w_file_subdir_file = (None, w_file_subdir_file_1)
   \<and> map_of (input_dir w_file_subdir_file_1) ''sub'' = Some Directory
   \<and> fst (input_iteration env_ok w_file_subdir_file) = Some IsADirectoryError
   \<and> last (events (snd (input_iteration env_ok w_file_subdir_file))) = S3Upload ''sub'' ''sub''"
proof -
  have h: "check_input_files w_file_subdir_file = [''a''] @ ''sub'' # [''b'']"
    "map_of (input_dir w_file_subdir_file_1) ''sub'' = Some Directory"
    "CHR '' '' \<notin> set ''sub''" "stored_name ''sub'' = ''sub''"
    "\<not> stat_fails env_ok (InputDir, ''sub'')"
    by (simp_all add: w_file_subdir_file_def w_file_subdir_file_1_def world_defs
        check_input_files_def names_def stored_name_def)
  note t = input_iteration_passes_entries_in_order[where w = w_file_subdir_file
      and pre = "[''a'']" and x = "''sub''" and post = "[''b'']" and env = env_ok
      and ?w1.0 = w_file_subdir_file_1, unfolded h(4)]
  from t h file_subdir_file_first have
    "input_iteration env_ok w_file_subdir_file
       = (Some IsADirectoryError, snd (upload_file env_ok ''sub'' w_file_subdir_file_1))
     \<and> last (events (snd (input_iteration env_ok w_file_subdir_file))) = S3Upload ''sub'' ''sub''"
    by blast
  then have "fst (input_iteration env_ok w_file_subdir_file) = Some IsADirectoryError
     \<and> last (events (snd (input_iteration env_ok w_file_subdir_file))) = S3Upload ''sub'' ''sub''"
    by (metis fst_conv)
  with h file_subdir_file_first show ?thesis by blast
qed

text \<open>
  The claim as stated fails: the input directory holds the file \<^verbatim>\<open>a\<close>, the subdirectory
  \<^verbatim>\<open>sub\<close> and the file \<^verbatim>\<open>b\<close>. The iteration ends with the exception raised for \<^verbatim>\<open>sub\<close>,
  and the entry \<^verbatim>\<open>b\<close> is never passed to \<^verbatim>\<open>_upload_file\<close>: the trace has no call for it.
\<close>

theorem entry_after_subdirectory_counterexample:
  "''b'' \<in> set (check_input_files w_file_subdir_file)
   \<and> fst (input_iteration env_ok w_file_subdir_file) = Some IsADirectoryError
   \<and> OsStat (InputDir, ''b'') \<notin> set (events (snd (input_iteration env_ok w_file_subdir_file)))
   \<and> S3Upload ''b'' ''b'' \<notin> set (events (snd (input_iteration env_ok w_file_subdir_file)))"
  unfolding file_subdir_file_run
  by (simp add: w_file_subdir_file_1_def w_file_subdir_file_def world_defs
      check_input_files_def names_def)

end
